theory Spec2Isabelle
  imports Complex_Main "HOL-Library.Multiset"
begin

section \<open>Data model\<close>

text \<open>
  The embedding follows \<^verbatim>\<open>monolingual.hpp\<close>, \<^verbatim>\<open>monolingual.cpp\<close> and
  \<^verbatim>\<open>distance.cpp\<close>. A \<^verbatim>\<open>float\<close> is idealised as a real number: no statement below
  depends on rounding. Two things a real number cannot express are written out as
  outcomes of their own: an access outside a \<^verbatim>\<open>std::vector\<close> or an invalid iterator
  range (undefined behaviour in C++), and a floating-point division by zero (which yields
  an infinity or a NaN rather than a number).
\<close>

type_synonym vec = "real list"
type_synonym mat = "vec list"

datatype error =
    OOV                  \<comment> \<open>\<^verbatim>\<open>runtime_error("OOV word")\<close>, \<^verbatim>\<open>runtime_error("out of vocabulary")\<close>\<close>
  | ShapeMismatch        \<comment> \<open>\<^verbatim>\<open>runtime_error("input sequences don't have the same size")\<close>\<close>
  | AllOOV               \<comment> \<open>\<^verbatim>\<open>runtime_error("all word pairs are unknown (OOV)")\<close>\<close>
  | UndefinedBehaviour   \<comment> \<open>out-of-range element access, invalid iterator range\<close>
  | DivisionByZero       \<comment> \<open>a \<^verbatim>\<open>float\<close> division by zero: the result is no number\<close>
  | AllocationFailure    \<comment> \<open>\<^verbatim>\<open>std::length_error\<close>: a vector of negative size\<close>

text \<open>The fields of \<^verbatim>\<open>Config\<close> that the modelled functions read.\<close>

record Config =
  dimension :: nat
  negative :: int
  hierarchical_softmax :: bool
  no_average :: bool
  window_size :: nat
  learning_rate :: real
  iterations :: int
  threads :: int

text \<open>
  A vocabulary entry: the leaf data of a \<^verbatim>\<open>HuffmanNode\<close>. The vocabulary is an
  \<^verbatim>\<open>unordered_map<string, HuffmanNode>\<close>; it is modelled as an association list, whose
  order stands for the iteration order of the hash table.
\<close>

record HuffmanNode =
  word :: string
  index :: int
  count :: int
  code :: "int list"
  parents :: "int list"

record MonolingualModel =
  config :: Config
  input_weights :: mat
  output_weights :: mat
  output_weights_hs :: mat
  vocabulary :: "(string \<times> HuffmanNode) list"
  unigram_table :: "HuffmanNode list"

subsection \<open>Vectors\<close>

text \<open>
  Modelled from the spec: the class \<^verbatim>\<open>vec\<close> of \<^verbatim>\<open>utils.hpp\<close> is not among the sources.
  The spec gives it element-wise \<open>+\<close>, multiplication and division by a scalar, the dot
  product and the L2 norm.
\<close>

definition vadd :: "vec \<Rightarrow> vec \<Rightarrow> vec" where
  "vadd a b = map2 (+) a b"

definition vscale :: "real \<Rightarrow> vec \<Rightarrow> vec" where
  "vscale s a = map ((*) s) a"

definition vdiv :: "vec \<Rightarrow> real \<Rightarrow> vec" where
  "vdiv a s = map (\<lambda>x. x / s) a"

definition dot :: "vec \<Rightarrow> vec \<Rightarrow> real" where
  "dot a b = sum_list (map2 (*) a b)"

definition norm2 :: "vec \<Rightarrow> real" where
  "norm2 a = sqrt (dot a a)"

definition zero_vec :: "nat \<Rightarrow> vec" where
  "zero_vec d = replicate d 0"

text \<open>
  Modelled from the spec: \<^verbatim>\<open>cosineSimilarity\<close> of \<^verbatim>\<open>utils.hpp\<close> is not among the sources.
  The spec says that the cosine of zero vectors is 0; the guard is the one that
  \<^verbatim>\<open>similaritySentence\<close> writes inline.
\<close>

definition cosineSimilarity :: "vec \<Rightarrow> vec \<Rightarrow> real" where
  "cosineSimilarity v1 v2 =
     (let len = norm2 v1 * norm2 v2 in if len = 0 then 0 else dot v1 v2 / len)"

subsection \<open>Tokens\<close>

text \<open>
  Modelled from the spec: \<^verbatim>\<open>split\<close> of \<^verbatim>\<open>utils.hpp\<close> is not among the sources. Input is
  whitespace separated; the tokens are the maximal runs of non-whitespace characters, as
  \<^verbatim>\<open>iss >> word\<close> reads them in \<^verbatim>\<open>getNodes\<close>.
\<close>

definition is_space :: "char \<Rightarrow> bool" where
  "is_space c = (c = CHR '' '' \<or> c = CHR 0x09 \<or> c = CHR 0x0A \<or> c = CHR 0x0B
                 \<or> c = CHR 0x0C \<or> c = CHR 0x0D)"

fun split_from :: "string \<Rightarrow> string \<Rightarrow> string list" where
  "split_from cur [] = (if cur = [] then [] else [cur])"
| "split_from cur (c # cs) =
     (if is_space c then (if cur = [] then split_from [] cs else cur # split_from [] cs)
      else split_from (cur @ [c]) cs)"

definition split :: "string \<Rightarrow> string list" where
  "split s = split_from [] s"

section \<open>Query layer\<close>

subsection \<open>wordVec\<close>

text \<open>Reading row \<open>i\<close> of a matrix, and the first \<open>d\<close> components of a row.\<close>

definition row :: "mat \<Rightarrow> int \<Rightarrow> error + vec" where
  "row w i = (if 0 \<le> i \<and> i < int (length w) then Inr (w ! nat i) else Inl UndefinedBehaviour)"

definition components :: "vec \<Rightarrow> nat \<Rightarrow> error + vec" where
  "components v d = (if d \<le> length v then Inr (take d v) else Inl UndefinedBehaviour)"

text \<open>An exception or undefined behaviour ends the computation: the rest is skipped.\<close>

definition and_then :: "error + 'a \<Rightarrow> ('a \<Rightarrow> error + 'b) \<Rightarrow> error + 'b" where
  "and_then r f = (case r of Inl e \<Rightarrow> Inl e | Inr v \<Rightarrow> f v)"

text \<open>\<^verbatim>\<open>vec MonolingualModel::wordVec(int index, int policy) const\<close>\<close>

definition wordVec_index :: "MonolingualModel \<Rightarrow> int \<Rightarrow> int \<Rightarrow> error + vec" where
  "wordVec_index m i policy =
     (if policy = 1 \<and> negative (config m) > 0 then
        (let d = dimension (config m) in
         and_then (row (input_weights m) i) (\<lambda>iw.
         and_then (components iw d) (\<lambda>a.
         and_then (row (output_weights m) i) (\<lambda>ow.
         and_then (components ow d) (\<lambda>b. Inr (a @ b))))))
      else if policy = 2 \<and> negative (config m) > 0 then
        and_then (row (input_weights m) i) (\<lambda>iw.
        and_then (row (output_weights m) i) (\<lambda>ow. Inr (vadd iw ow)))
      else if policy = 3 \<and> negative (config m) > 0 then row (output_weights m) i
      else row (input_weights m) i)"

text \<open>\<^verbatim>\<open>vec MonolingualModel::wordVec(const string& word, int policy) const\<close>\<close>

definition wordVec :: "MonolingualModel \<Rightarrow> string \<Rightarrow> int \<Rightarrow> error + vec" where
  "wordVec m w policy =
     (case map_of (vocabulary m) w of
        None \<Rightarrow> Inl OOV
      | Some node \<Rightarrow> wordVec_index m (index node) policy)"

subsection \<open>similarity, distance\<close>

definition similarity :: "MonolingualModel \<Rightarrow> string \<Rightarrow> string \<Rightarrow> int \<Rightarrow> error + real" where
  "similarity m word1 word2 policy =
     (case map_of (vocabulary m) word1 of
        None \<Rightarrow> Inr 0
      | Some n1 \<Rightarrow>
         (case map_of (vocabulary m) word2 of
            None \<Rightarrow> Inr 0
          | Some n2 \<Rightarrow>
             if index n1 = index n2 then Inr 1
             else
               and_then (wordVec_index m (index n1) policy) (\<lambda>v1.
               and_then (wordVec_index m (index n2) policy) (\<lambda>v2.
                 Inr (cosineSimilarity v1 v2)))))"

definition distance :: "MonolingualModel \<Rightarrow> string \<Rightarrow> string \<Rightarrow> int \<Rightarrow> error + real" where
  "distance m word1 word2 policy =
     and_then (similarity m word1 word2 policy) (\<lambda>s. Inr ((1 - s) / 2))"

subsection \<open>similarityNgrams\<close>

text \<open>
  The loop of \<^verbatim>\<open>similarityNgrams\<close>: \<open>i\<close> runs over the positions of \<open>words1\<close>, and
  \<open>words2[i]\<close> is read without a bounds check. The \<^verbatim>\<open>catch (runtime_error)\<close> skips a
  pair whose similarity raised; undefined behaviour is not an exception and is not caught.
\<close>

function ngrams_loop ::
  "MonolingualModel \<Rightarrow> int \<Rightarrow> string list \<Rightarrow> string list \<Rightarrow> nat \<Rightarrow> real \<Rightarrow> int
     \<Rightarrow> error + real \<times> int" where
  "ngrams_loop m policy words1 words2 i res n =
     (if i < length words1 then
        (if i < length words2 then
           (case similarity m (words1 ! i) (words2 ! i) policy of
              Inr s \<Rightarrow> ngrams_loop m policy words1 words2 (Suc i) (res + s) (n + 1)
            | Inl e \<Rightarrow>
                if e = UndefinedBehaviour then Inl e
                else ngrams_loop m policy words1 words2 (Suc i) res n)
         else Inl UndefinedBehaviour)
      else Inr (res, n))"
  by pat_completeness auto
termination
  by (relation "measure (\<lambda>(m, policy, words1, words2, i, res, n). length words1 - i)") auto

declare ngrams_loop.simps [simp del]

definition similarityNgrams :: "MonolingualModel \<Rightarrow> string \<Rightarrow> string \<Rightarrow> int \<Rightarrow> error + real" where
  "similarityNgrams m seq1 seq2 policy =
     (let words1 = split seq1; words2 = split seq2 in
      if length words2 \<noteq> length words2 then Inl ShapeMismatch
      else
        (case ngrams_loop m policy words1 words2 0 0 0 of
           Inl e \<Rightarrow> Inl e
         | Inr (res, n) \<Rightarrow> if n = 0 then Inl AllOOV else Inr (res / real_of_int n)))"

subsection \<open>closest\<close>

text \<open>\<^verbatim>\<open>static bool comp(const pair<string, float>& p1, const pair<string, float>& p2)\<close>\<close>

definition comp_pair :: "string \<times> real \<Rightarrow> string \<times> real \<Rightarrow> bool" where
  "comp_pair p1 p2 = (snd p1 > snd p2)"

text \<open>
  \<^verbatim>\<open>std::partial_sort(first, middle, last, comp)\<close> with \<open>middle = first + n\<close> leaves the
  \<open>n\<close> first elements in the order of \<open>comp_pair\<close> at the front. It is modelled as \<open>n\<close>
  rounds of selection: the order of ties and of the elements behind \<open>middle\<close>, which the
  standard leaves open, is fixed by taking the first of several best elements and by keeping
  the rest in place. The call is defined only when \<open>[first, middle)\<close> is a valid range,
  that is when \<open>n\<close> is at most the length of the list; \<open>closest\<close> below writes the
  other case out.
\<close>

fun best :: "(string \<times> real) list \<Rightarrow> string \<times> real" where
  "best [] = ([], 0)"
| "best [x] = x"
| "best (x # y # ys) = (let b = best (y # ys) in if comp_pair b x then b else x)"

fun partial_sort :: "nat \<Rightarrow> (string \<times> real) list \<Rightarrow> (string \<times> real) list" where
  "partial_sort 0 xs = xs"
| "partial_sort (Suc n) [] = []"
| "partial_sort (Suc n) (x # xs) =
     (let b = best (x # xs) in b # partial_sort n (remove1 b (x # xs)))"

text \<open>The loop of \<^verbatim>\<open>closest\<close> over the vocabulary, collecting every other term.\<close>

fun closest_loop ::
  "MonolingualModel \<Rightarrow> int \<Rightarrow> vec \<Rightarrow> int \<Rightarrow> (string \<times> HuffmanNode) list
     \<Rightarrow> (string \<times> real) list \<Rightarrow> error + (string \<times> real) list" where
  "closest_loop m i v1 policy [] res = Inr res"
| "closest_loop m i v1 policy (entry # rest) res =
     (if index (snd entry) \<noteq> i then
        and_then (wordVec_index m (index (snd entry)) policy) (\<lambda>v2.
          closest_loop m i v1 policy rest (res @ [(word (snd entry), cosineSimilarity v1 v2)]))
      else closest_loop m i v1 policy rest res)"

text \<open>
  \<^verbatim>\<open>vector<pair<string, float>> MonolingualModel::closest(const string& word, int n,
  int policy) const\<close>. The iterator \<^verbatim>\<open>res.begin() + n\<close> must lie within
  \<^verbatim>\<open>[res.begin(), res.end()]\<close>; otherwise the call to \<^verbatim>\<open>std::partial_sort\<close> has
  undefined behaviour.
\<close>

definition closest ::
  "MonolingualModel \<Rightarrow> string \<Rightarrow> int \<Rightarrow> int \<Rightarrow> error + (string \<times> real) list" where
  "closest m w n policy =
     (case map_of (vocabulary m) w of
        None \<Rightarrow> Inl OOV
      | Some node \<Rightarrow>
          and_then (wordVec_index m (index node) policy) (\<lambda>v1.
          and_then (closest_loop m (index node) v1 policy (vocabulary m) []) (\<lambda>res.
            if n < 0 \<or> int (length res) < n then Inl UndefinedBehaviour
            else
              (let sorted_res = partial_sort (nat n) res in
               Inr (if int (length sorted_res) > n then take (nat n) sorted_res
                    else sorted_res)))))"

subsection \<open>softWER\<close>

type_synonym table = "real list list"

text \<open>The assignment \<^verbatim>\<open>d[i][j] = v\<close>.\<close>

definition table_set :: "table \<Rightarrow> nat \<Rightarrow> nat \<Rightarrow> real \<Rightarrow> table" where
  "table_set d i j v = d[i := (d ! i)[j := v]]"

text \<open>
  The table \<^verbatim>\<open>d(len1 + 1, vector<float>(len2 + 1))\<close> after \<^verbatim>\<open>d[0][0] = 0\<close> and the two
  loops that fill column 0 and row 0.
\<close>

definition init_table :: "nat \<Rightarrow> nat \<Rightarrow> table" where
  "init_table len1 len2 =
     (let d0 = replicate (len1 + 1) (replicate (len2 + 1) 0);
          d1 = table_set d0 0 0 0;
          d2 = fold (\<lambda>i d. table_set d i 0 (real i)) [1..<Suc len1] d1
      in fold (\<lambda>i d. table_set d 0 i (real i)) [1..<Suc len2] d2)"

text \<open>The body of the inner loop, the inner loop over \<open>j\<close>, and the function.\<close>

definition wer_cell ::
  "MonolingualModel \<Rightarrow> int \<Rightarrow> string list \<Rightarrow> string list \<Rightarrow> nat \<Rightarrow> nat \<Rightarrow> table
     \<Rightarrow> error + table" where
  "wer_cell m policy s1 s2 i j d =
     and_then (distance m (s1 ! (i - 1)) (s2 ! (j - 1)) policy) (\<lambda>sub_cost.
       Inr (table_set d i j
              (min (d ! (i - 1) ! j + 1)
                (min (d ! i ! (j - 1) + 1)
                     (d ! (i - 1) ! (j - 1) + sub_cost)))))"

definition wer_row ::
  "MonolingualModel \<Rightarrow> int \<Rightarrow> string list \<Rightarrow> string list \<Rightarrow> nat \<Rightarrow> table \<Rightarrow> error + table" where
  "wer_row m policy s1 s2 i d =
     fold (\<lambda>j r. and_then r (wer_cell m policy s1 s2 i j)) [1..<Suc (length s2)] (Inr d)"

definition softWER :: "MonolingualModel \<Rightarrow> string \<Rightarrow> string \<Rightarrow> int \<Rightarrow> error + real" where
  "softWER m hyp ref policy =
     (let s1 = split hyp; s2 = split ref; len1 = length s1; len2 = length s2 in
      and_then
        (fold (\<lambda>i r. and_then r (wer_row m policy s1 s2 i)) [1..<Suc len1]
           (Inr (init_table len1 len2)))
        (\<lambda>d. if len2 = 0 then Inl DivisionByZero
             else Inr (d ! len1 ! len2 / real len2)))"

subsection \<open>The recurrence of the specification\<close>

text \<open>
  The Levenshtein recurrence as the specification words it, over a substitution cost
  \<open>c i j\<close> for the \<open>i\<close>-th token of the hypothesis and the \<open>j\<close>-th of the reference
  (counted from 1): \<open>d[0][j] = j\<close>, \<open>d[i][0] = i\<close>, and
  \<open>d[i][j] = min(d[i-1][j] + 1, d[i][j-1] + 1, d[i-1][j-1] + c i j)\<close>.
\<close>

fun levenshtein :: "(nat \<Rightarrow> nat \<Rightarrow> real) \<Rightarrow> nat \<Rightarrow> nat \<Rightarrow> real" where
  "levenshtein c 0 j = real j"
| "levenshtein c (Suc i) 0 = real (Suc i)"
| "levenshtein c (Suc i) (Suc j) =
     min (levenshtein c i (Suc j) + 1)
       (min (levenshtein c (Suc i) j + 1)
            (levenshtein c i j + c (Suc i) (Suc j)))"

text \<open>
  The numbers that \<^verbatim>\<open>similarity\<close> and \<^verbatim>\<open>distance\<close> return, and the cost
  \<open>distance(h[i-1], r[j-1], policy)\<close>.
\<close>

definition similarity_value :: "MonolingualModel \<Rightarrow> int \<Rightarrow> string \<Rightarrow> string \<Rightarrow> real" where
  "similarity_value m policy word1 word2 =
     (case similarity m word1 word2 policy of Inr s \<Rightarrow> s | Inl e \<Rightarrow> 0)"

definition distance_value :: "MonolingualModel \<Rightarrow> int \<Rightarrow> string \<Rightarrow> string \<Rightarrow> real" where
  "distance_value m policy word1 word2 =
     (case distance m word1 word2 policy of Inr c \<Rightarrow> c | Inl e \<Rightarrow> 0)"

definition sub_cost ::
  "MonolingualModel \<Rightarrow> int \<Rightarrow> string list \<Rightarrow> string list \<Rightarrow> nat \<Rightarrow> nat \<Rightarrow> real" where
  "sub_cost m policy h r i j = distance_value m policy (h ! (i - 1)) (r ! (j - 1))"

text \<open>A list of results in descending order of similarity.\<close>

definition descending :: "(string \<times> real) list \<Rightarrow> bool" where
  "descending ps = sorted_wrt (\<lambda>p q. snd q \<le> snd p) ps"

section \<open>Bilingual layer\<close>

text \<open>
  The members of \<^verbatim>\<open>BilingualModel\<close> that \<^verbatim>\<open>dictionaryInduction\<close> reads: the two
  monolingual models and the configuration with its number of threads.
\<close>

record BilingualModel =
  src_model :: MonolingualModel
  trg_model :: MonolingualModel
  bi_config :: Config

text \<open>
  The two loops that collect \<^verbatim>\<open>{node->second.word, vec / vec.norm()}\<close> for the words of
  a list that are in the vocabulary. A vector of norm 0 is divided by zero.
\<close>

fun unit_words ::
  "MonolingualModel \<Rightarrow> int \<Rightarrow> string list \<Rightarrow> (string \<times> vec) list
     \<Rightarrow> error + (string \<times> vec) list" where
  "unit_words m policy [] words = Inr words"
| "unit_words m policy (w # rest) words =
     (case map_of (vocabulary m) w of
        None \<Rightarrow> unit_words m policy rest words
      | Some node \<Rightarrow>
          and_then (wordVec_index m (index node) policy) (\<lambda>v.
            if norm2 v = 0 then Inl DivisionByZero
            else unit_words m policy rest (words @ [(word node, vdiv v (norm2 v))])))"

text \<open>
  The inner loop of the free function \<^verbatim>\<open>dictionaryInduction\<close>: \<open>trg_index\<close> is the
  iterator of the best target so far (\<open>None\<close> for \<^verbatim>\<open>trg_words.end()\<close>).
\<close>

fun best_target ::
  "vec \<Rightarrow> (string \<times> vec) list \<Rightarrow> (string \<times> vec) option \<Rightarrow> real
     \<Rightarrow> (string \<times> vec) option" where
  "best_target src_vec [] trg_index similarity' = trg_index"
| "best_target src_vec (trg # rest) trg_index similarity' =
     (let sim = dot src_vec (snd trg) in
      if trg_index = None \<or> sim > similarity' then best_target src_vec rest (Some trg) sim
      else best_target src_vec rest trg_index similarity')"

text \<open>
  \<^verbatim>\<open>void dictionaryInduction(const vector<pair<string, vec>>& src_words, const
  vector<pair<string, vec>>& trg_words, vector<pair<string, string>>& dictionary)\<close>
\<close>

fun dictionaryInduction_words ::
  "(string \<times> vec) list \<Rightarrow> (string \<times> vec) list \<Rightarrow> (string \<times> string) list
     \<Rightarrow> (string \<times> string) list" where
  "dictionaryInduction_words [] trg_words dictionary = dictionary"
| "dictionaryInduction_words (src # rest) trg_words dictionary =
     (case best_target (snd src) trg_words None 0 of
        None \<Rightarrow> dictionaryInduction_words rest trg_words dictionary
      | Some trg \<Rightarrow>
          dictionaryInduction_words rest trg_words (dictionary @ [(fst src, fst trg)]))"

text \<open>
  \<^verbatim>\<open>splits[i]\<close>: the copy of \<^verbatim>\<open>[begin, end)\<close> with \<open>size = src_words.size() / threads\<close>,
  \<open>begin = i * size\<close>, and \<open>end = begin + size\<close> except for the last thread, which
  runs to the end of the list.
\<close>

definition thread_split :: "'a list \<Rightarrow> nat \<Rightarrow> nat \<Rightarrow> 'a list" where
  "thread_split xs n i =
     (let size = length xs div n;
          begin = i * size;
          end = (if i = n - 1 then length xs else begin + size)
      in take (end - begin) (drop begin xs))"

text \<open>
  \<^verbatim>\<open>BilingualModel::dictionaryInduction(const vector<string>& src_vocab, const
  vector<string>& trg_vocab, int policy) const\<close>. Each thread reads its own split and the
  shared target list and writes its own dictionary; after the joins the dictionaries are
  appended in the order of the threads. No thread writes what another one reads, so the
  threads are modelled as a map over the splits.
\<close>

definition dictionaryInduction ::
  "BilingualModel \<Rightarrow> string list \<Rightarrow> string list \<Rightarrow> int
     \<Rightarrow> error + (string \<times> string) list" where
  "dictionaryInduction bm src_vocab trg_vocab policy =
     and_then (unit_words (src_model bm) policy src_vocab []) (\<lambda>src_words.
     and_then (unit_words (trg_model bm) policy trg_vocab []) (\<lambda>trg_words.
       if threads (bi_config bm) = 1 then
         Inr (dictionaryInduction_words src_words trg_words [])
       else if threads (bi_config bm) < 0 then Inl AllocationFailure
       else
         (let n = nat (threads (bi_config bm));
              splits = map (thread_split src_words n) [0..<n];
              dictionaries = map (\<lambda>s. dictionaryInduction_words s trg_words []) splits
          in Inr (concat dictionaries))))"

section \<open>Training: the progress counter and the learning rate\<close>

text \<open>
  The state of \<^verbatim>\<open>trainChunk\<close> that the progress report uses: the member
  \<^verbatim>\<open>words_processed\<close>, shared by all workers, and the locals \<^verbatim>\<open>alpha\<close> and
  \<^verbatim>\<open>word_count\<close> of each worker (one per chunk). The weight matrices, which
  \<^verbatim>\<open>trainSentence\<close> updates, play no part in it and are left out of this state.

  In the default build \<^verbatim>\<open>words_processed\<close> is a plain \<^verbatim>\<open>long long\<close>
  (\<^verbatim>\<open>std::atomic\<close> only under \<^verbatim>\<open>SYNC_SGD\<close>), so the statement
  \<^verbatim>\<open>words_processed += word_count\<close> that ends an epoch, which takes no lock, is a read
  of the member followed by a write. Between the two the worker holds the value that it
  has read: \<open>loaded\<close> is that value, and \<open>None\<close> when the worker is not inside this
  statement.
\<close>

record worker =
  alpha :: real
  word_count :: int
  loaded :: "int option"

record training =
  words_processed :: int
  workers :: "worker list"

text \<open>
  What \<^verbatim>\<open>trainSentence\<close> returns: \<^verbatim>\<open>nodes.size() - count(nodes.begin(), nodes.end(),
  HuffmanNode::UNK)\<close>, where \<^verbatim>\<open>getNodes\<close> has put \<^verbatim>\<open>UNK\<close> (here \<open>None\<close>) for every
  token that is not in the vocabulary.
\<close>

definition trainSentence_words :: "MonolingualModel \<Rightarrow> string \<Rightarrow> int" where
  "trainSentence_words m sent =
     (let nodes = map (map_of (vocabulary m)) (split sent) in
      int (length nodes) - int (length (filter (\<lambda>node. node = None) nodes)))"

text \<open>
  The new learning rate, from the counter as it stands after the addition:
  \<^verbatim>\<open>starting_alpha * (1 - static_cast<float>(words_processed) / (max_iterations *
  training_words))\<close>, raised to \<^verbatim>\<open>starting_alpha * 0.0001f\<close> when it is below.
\<close>

definition decayed_alpha :: "Config \<Rightarrow> int \<Rightarrow> int \<Rightarrow> real" where
  "decayed_alpha cfg training_words processed =
     (let starting_alpha = learning_rate cfg;
          max_iterations = iterations cfg;
          a = starting_alpha
              * (1 - real_of_int processed / real_of_int (max_iterations * training_words))
      in if a < starting_alpha * 0.0001 then starting_alpha * 0.0001 else a)"

text \<open>
  One pass through the body of \<^verbatim>\<open>while (getline(infile, sent))\<close> by the worker of
  chunk \<open>chunk_id\<close>. The addition and the new learning rate are computed under
  \<^verbatim>\<open>print_mutex\<close> and are taken as a whole. The division by
  \<open>max_iterations * training_words\<close> is a floating-point division.
\<close>

definition trainChunk_sentence ::
  "Config \<Rightarrow> int \<Rightarrow> MonolingualModel \<Rightarrow> string \<Rightarrow> nat \<Rightarrow> training \<Rightarrow> error + training" where
  "trainChunk_sentence cfg training_words m sent chunk_id s =
     (let w = workers s ! chunk_id;
          wc = word_count w + trainSentence_words m sent
      in if wc \<ge> 10000 then
           (let processed = words_processed s + wc in
            if iterations cfg * training_words = 0 then Inl DivisionByZero
            else Inr (s\<lparr>words_processed := processed,
                        workers := (workers s)
                          [chunk_id := w\<lparr>alpha := decayed_alpha cfg training_words processed,
                                         word_count := 0\<rparr>]\<rparr>))
         else Inr (s\<lparr>workers := (workers s)[chunk_id := w\<lparr>word_count := wc\<rparr>]\<rparr>))"

text \<open>
  The statement \<^verbatim>\<open>words_processed += word_count\<close> after the loop, without a lock: the
  read of \<^verbatim>\<open>words_processed\<close>, and the write of the sum of the value read and
  \<^verbatim>\<open>word_count\<close>. The next epoch starts with \<^verbatim>\<open>word_count = 0\<close>.
\<close>

definition trainChunk_epoch_load :: "nat \<Rightarrow> training \<Rightarrow> training" where
  "trainChunk_epoch_load chunk_id s =
     (let w = workers s ! chunk_id in
      s\<lparr>workers := (workers s)[chunk_id := w\<lparr>loaded := Some (words_processed s)\<rparr>]\<rparr>)"

definition trainChunk_epoch_store :: "nat \<Rightarrow> int \<Rightarrow> training \<Rightarrow> training" where
  "trainChunk_epoch_store chunk_id v s =
     (let w = workers s ! chunk_id in
      s\<lparr>words_processed := v + word_count w,
        workers := (workers s)[chunk_id := w\<lparr>word_count := 0, loaded := None\<rparr>]\<rparr>)"

text \<open>
  \<^verbatim>\<open>train\<close> sets \<^verbatim>\<open>words_processed = 0\<close> and starts one worker per thread, each with
  \<^verbatim>\<open>alpha = starting_alpha\<close>.
\<close>

definition train_start :: "Config \<Rightarrow> training" where
  "train_start cfg =
     \<lparr>words_processed = 0,
      workers = replicate (nat (threads cfg))
                  \<lparr>alpha = learning_rate cfg, word_count = 0, loaded = None\<rparr>\<rparr>"

text \<open>
  A step of the training run is a step of one of its workers; with several threads the
  steps of the workers interleave. The steps are one pass through the body of the loop
  (its locked section as a whole), the read of the counter at the end of an epoch, and
  the write that follows it: a worker that has read the counter does nothing else before
  it writes it. The relation leaves open which line a worker reads and how many epochs it
  runs. Runs in which the write of another worker falls inside a locked section are left
  out of it.
\<close>

inductive trainChunk_step :: "Config \<Rightarrow> int \<Rightarrow> MonolingualModel \<Rightarrow> training \<Rightarrow> training \<Rightarrow> bool"
  for cfg :: Config and training_words :: int and m :: MonolingualModel where
  sentence:
    "chunk_id < length (workers s) \<Longrightarrow>
     loaded (workers s ! chunk_id) = None \<Longrightarrow>
     trainChunk_sentence cfg training_words m sent chunk_id s = Inr s' \<Longrightarrow>
     trainChunk_step cfg training_words m s s'"
| epoch_load:
    "chunk_id < length (workers s) \<Longrightarrow>
     loaded (workers s ! chunk_id) = None \<Longrightarrow>
     trainChunk_step cfg training_words m s (trainChunk_epoch_load chunk_id s)"
| epoch_store:
    "chunk_id < length (workers s) \<Longrightarrow>
     loaded (workers s ! chunk_id) = Some v \<Longrightarrow>
     trainChunk_step cfg training_words m s (trainChunk_epoch_store chunk_id v s)"

inductive reachable :: "Config \<Rightarrow> int \<Rightarrow> MonolingualModel \<Rightarrow> training \<Rightarrow> bool"
  for cfg :: Config and training_words :: int and m :: MonolingualModel where
  start: "reachable cfg training_words m (train_start cfg)"
| step: "reachable cfg training_words m s \<Longrightarrow> trainChunk_step cfg training_words m s s' \<Longrightarrow>
         reachable cfg training_words m s'"

section \<open>Training: the CBOW kernel\<close>

text \<open>
  Modelled from the spec: \<^verbatim>\<open>multivec::rand\<close> of \<^verbatim>\<open>utils.hpp\<close> is not among the sources.
  The spec draws uniformly below a bound; the generator is modelled by the list of the
  values that it is going to return, each reduced below the bound.
\<close>

type_synonym rng = "nat list"

definition rand :: "nat \<Rightarrow> rng \<Rightarrow> nat \<times> rng" where
  "rand n g = (case g of [] \<Rightarrow> (0, []) | x # g' \<Rightarrow> (x mod n, g'))"

text \<open>
  Modelled from the spec: \<^verbatim>\<open>MAX_EXP\<close> and \<^verbatim>\<open>sigmoid\<close> are declared in \<^verbatim>\<open>utils.hpp\<close>.
  The spec gives \<open>MAX_EXP = 6\<close>; the function is the one that \<^verbatim>\<open>get_exp_table\<close>
  tabulates, \<open>x = exp(\<dots>); x / (x + 1)\<close>.
\<close>

definition MAX_EXP :: real where
  "MAX_EXP = 6"

definition sigmoid :: "real \<Rightarrow> real" where
  "sigmoid x = exp x / (exp x + 1)"

text \<open>
  \<^verbatim>\<open>HuffmanNode* MonolingualModel::getRandomHuffmanNode()\<close>: an element of the unigram
  table, which must not be empty.
\<close>

definition getRandomHuffmanNode :: "MonolingualModel \<Rightarrow> rng \<Rightarrow> error + HuffmanNode \<times> rng" where
  "getRandomHuffmanNode m g =
     (if unigram_table m = [] then Inl UndefinedBehaviour
      else (let (i, g') = rand (length (unigram_table m)) g in Inr (unigram_table m ! i, g')))"

text \<open>
  \<^verbatim>\<open>vec MonolingualModel::hierarchicalUpdate(const HuffmanNode& node, const vec& hidden,
  float alpha, bool update)\<close>: the loop over \<open>j\<close>, with the accumulated vector
  \<open>temp\<close> and the model as its state, and the function.
\<close>

fun hierarchicalUpdate_loop ::
  "HuffmanNode \<Rightarrow> vec \<Rightarrow> real \<Rightarrow> bool \<Rightarrow> nat list \<Rightarrow> vec \<times> MonolingualModel
     \<Rightarrow> error + vec \<times> MonolingualModel" where
  "hierarchicalUpdate_loop node hidden a update [] (temp, m) = Inr (temp, m)"
| "hierarchicalUpdate_loop node hidden a update (j # js) (temp, m) =
     (if j < length (parents node) then
        (let parent_index = parents node ! j in
         and_then (row (output_weights_hs m) parent_index) (\<lambda>w.
           let x = dot hidden w in
           if x \<le> - MAX_EXP \<or> x \<ge> MAX_EXP then
             hierarchicalUpdate_loop node hidden a update js (temp, m)
           else
             (let pred = sigmoid x;
                  err = - a * (pred - real_of_int (code node ! j));
                  temp' = vadd temp (vscale err w);
                  m' = (if update
                        then m\<lparr>output_weights_hs :=
                               (output_weights_hs m)[nat parent_index := vadd w (vscale err hidden)]\<rparr>
                        else m)
              in hierarchicalUpdate_loop node hidden a update js (temp', m'))))
      else Inl UndefinedBehaviour)"

definition hierarchicalUpdate ::
  "MonolingualModel \<Rightarrow> HuffmanNode \<Rightarrow> vec \<Rightarrow> real \<Rightarrow> bool \<Rightarrow> error + vec \<times> MonolingualModel" where
  "hierarchicalUpdate m node hidden a update =
     hierarchicalUpdate_loop node hidden a update [0..<length (code node)]
       (zero_vec (dimension (config m)), m)"

text \<open>
  \<^verbatim>\<open>vec MonolingualModel::negSamplingUpdate(const HuffmanNode& node, const vec& hidden,
  float alpha, bool update)\<close>: the loop over \<open>d\<close>. The first round takes the node itself
  with label 1; the others draw a node, skip the round (\<^verbatim>\<open>continue\<close>) when it is the
  node itself, and use label 0. Modelled from the spec: the comparison
  \<^verbatim>\<open>*target == node\<close> is declared in \<^verbatim>\<open>utils.hpp\<close>; it is taken to compare the indices.
\<close>

fun negSamplingUpdate_loop ::
  "HuffmanNode \<Rightarrow> vec \<Rightarrow> real \<Rightarrow> bool \<Rightarrow> nat list \<Rightarrow> vec \<times> MonolingualModel \<times> rng
     \<Rightarrow> error + vec \<times> MonolingualModel \<times> rng" where
  "negSamplingUpdate_loop node hidden a update [] (temp, m, g) = Inr (temp, m, g)"
| "negSamplingUpdate_loop node hidden a update (d # ds) (temp, m, g) =
     and_then
       (if d = 0 then Inr (Some (node, 1), g)
        else and_then (getRandomHuffmanNode m g) (\<lambda>(target, g').
               if index target = index node then Inr (None, g')
               else Inr (Some (target, 0), g')))
       (\<lambda>(sample, g').
          case sample of
            None \<Rightarrow> negSamplingUpdate_loop node hidden a update ds (temp, m, g')
          | Some (target, label) \<Rightarrow>
              and_then (row (output_weights m) (index target)) (\<lambda>w.
                let x = dot hidden w;
                    pred = (if x \<ge> MAX_EXP then 1 else if x \<le> - MAX_EXP then 0 else sigmoid x);
                    err = a * (label - pred);
                    temp' = vadd temp (vscale err w);
                    m' = (if update
                          then m\<lparr>output_weights :=
                                 (output_weights m)[nat (index target) := vadd w (vscale err hidden)]\<rparr>
                          else m)
                in negSamplingUpdate_loop node hidden a update ds (temp', m', g')))"

definition negSamplingUpdate ::
  "MonolingualModel \<Rightarrow> HuffmanNode \<Rightarrow> vec \<Rightarrow> real \<Rightarrow> bool \<Rightarrow> rng
     \<Rightarrow> error + vec \<times> MonolingualModel \<times> rng" where
  "negSamplingUpdate m node hidden a update g =
     negSamplingUpdate_loop node hidden a update [0..<nat (negative (config m) + 1)]
       (zero_vec (dimension (config m)), m, g)"

text \<open>
  The positions that both loops of \<^verbatim>\<open>trainWordCBOW\<close> visit: those of
  \<open>[word_pos - this_window_size, word_pos + this_window_size]\<close> that the
  \<^verbatim>\<open>continue\<close> does not skip.
\<close>

definition cbow_window :: "nat \<Rightarrow> int \<Rightarrow> int \<Rightarrow> int list" where
  "cbow_window n word_pos this_window_size =
     filter (\<lambda>pos. \<not> (pos < 0 \<or> pos \<ge> int n \<or> pos = word_pos))
       [word_pos - this_window_size .. word_pos + this_window_size]"

text \<open>
  The first loop, \<^verbatim>\<open>hidden += input_weights[nodes[pos].index]\<close>, followed by
  \<^verbatim>\<open>hidden += *sent_vec\<close> when there is a sentence vector: the sum and the number of
  its summands.
\<close>

fun cbow_sum :: "MonolingualModel \<Rightarrow> HuffmanNode list \<Rightarrow> int list \<Rightarrow> vec \<Rightarrow> error + vec" where
  "cbow_sum m nodes [] hidden = Inr hidden"
| "cbow_sum m nodes (pos # rest) hidden =
     and_then (row (input_weights m) (index (nodes ! nat pos))) (\<lambda>r.
       cbow_sum m nodes rest (vadd hidden r))"

definition cbow_hidden ::
  "MonolingualModel \<Rightarrow> HuffmanNode list \<Rightarrow> int list \<Rightarrow> vec option \<Rightarrow> error + vec \<times> nat" where
  "cbow_hidden m nodes window sent_vec =
     and_then (cbow_sum m nodes window (zero_vec (dimension (config m)))) (\<lambda>hidden.
       case sent_vec of
         None \<Rightarrow> Inr (hidden, length window)
       | Some sv \<Rightarrow> Inr (vadd hidden sv, length window + 1))"

text \<open>
  The error vector: \<^verbatim>\<open>error += hierarchicalUpdate(\<dots>)\<close> when hierarchical softmax is
  on, \<^verbatim>\<open>error += negSamplingUpdate(\<dots>)\<close> when \<open>negative > 0\<close>.
\<close>

definition cbow_gradient ::
  "MonolingualModel \<Rightarrow> HuffmanNode \<Rightarrow> vec \<Rightarrow> real \<Rightarrow> bool \<Rightarrow> rng
     \<Rightarrow> error + vec \<times> MonolingualModel \<times> rng" where
  "cbow_gradient m cur_node hidden a update g =
     (let err0 = zero_vec (dimension (config m)) in
      and_then
        (if hierarchical_softmax (config m)
         then and_then (hierarchicalUpdate m cur_node hidden a update) (\<lambda>(e, m1).
                Inr (vadd err0 e, m1))
         else Inr (err0, m))
        (\<lambda>(err1, m1).
           if negative (config m) > 0
           then and_then (negSamplingUpdate m1 cur_node hidden a update g) (\<lambda>(e, m2, g2).
                  Inr (vadd err1 e, m2, g2))
           else Inr (err1, m1, g)))"

text \<open>
  The second loop, \<^verbatim>\<open>input_weights[nodes[pos].index] += error / count\<close> (only when
  \<open>update\<close> is set), and \<^verbatim>\<open>*sent_vec += error / count\<close>; \<open>delta\<close> stands for
  \<open>error / count\<close>.
\<close>

fun cbow_update :: "HuffmanNode list \<Rightarrow> int list \<Rightarrow> vec \<Rightarrow> MonolingualModel
    \<Rightarrow> error + MonolingualModel" where
  "cbow_update nodes [] delta m = Inr m"
| "cbow_update nodes (pos # rest) delta m =
     and_then (row (input_weights m) (index (nodes ! nat pos))) (\<lambda>r.
       cbow_update nodes rest delta
         (m\<lparr>input_weights := (input_weights m)[nat (index (nodes ! nat pos)) := vadd r delta]\<rparr>))"

definition cbow_apply ::
  "HuffmanNode list \<Rightarrow> int list \<Rightarrow> vec option \<Rightarrow> vec \<Rightarrow> bool \<Rightarrow> MonolingualModel
     \<Rightarrow> error + MonolingualModel \<times> vec option" where
  "cbow_apply nodes window sent_vec delta update m =
     and_then (if update then cbow_update nodes window delta m else Inr m) (\<lambda>m'.
       Inr (m', map_option (\<lambda>sv. vadd sv delta) sent_vec))"

text \<open>
  \<^verbatim>\<open>void MonolingualModel::trainWordCBOW(const vector<HuffmanNode>& nodes, int word_pos,
  vec* sent_vec, float alpha, bool update)\<close>. The sentence vector is \<open>None\<close> for a null
  pointer. With \<open>no_average\<close> the code sets \<^verbatim>\<open>count = 1\<close> before \<^verbatim>\<open>hidden /= count\<close>.
\<close>

definition trainWordCBOW ::
  "MonolingualModel \<Rightarrow> HuffmanNode list \<Rightarrow> int \<Rightarrow> vec option \<Rightarrow> real \<Rightarrow> bool \<Rightarrow> rng
     \<Rightarrow> error + MonolingualModel \<times> vec option \<times> rng" where
  "trainWordCBOW m nodes word_pos sent_vec a update g =
     (if word_pos < 0 \<or> word_pos \<ge> int (length nodes) then Inl UndefinedBehaviour
      else
        (let cur_node = nodes ! nat word_pos;
             (r, g1) = rand (window_size (config m)) g;
             this_window_size = 1 + int r;
             window = cbow_window (length nodes) word_pos this_window_size
         in and_then (cbow_hidden m nodes window sent_vec) (\<lambda>(hidden_sum, count_sum).
              if count_sum = 0 then Inr (m, sent_vec, g1)
              else
                (let count' = (if no_average (config m) then 1 else count_sum);
                     hidden = vdiv hidden_sum (real count')
                 in and_then (cbow_gradient m cur_node hidden a update g1) (\<lambda>(err, m1, g2).
                      and_then (cbow_apply nodes window sent_vec (vdiv err (real count')) update m1)
                        (\<lambda>(m2, sent_vec'). Inr (m2, sent_vec', g2)))))))"

section \<open>Vocabulary and Huffman tree\<close>

text \<open>
  A node of the tree that \<^verbatim>\<open>createBinaryTree\<close> builds. A leaf is a pointer to a
  vocabulary entry: the model names the entry by its key and carries its count. An inner
  node is an element of \<^verbatim>\<open>parent_nodes\<close>, built by \<^verbatim>\<open>{i, left, right}\<close>.

  Modelled from the spec: the constructor and \<^verbatim>\<open>HuffmanNode::comp\<close> are in
  \<^verbatim>\<open>utils.hpp\<close>, which is not among the sources. By the spec a parent has the count
  \<open>count_L + count_R\<close>, and the leaves are ordered by count, descending.
\<close>

datatype hnode =
    Leaf string int
  | Parent int int hnode hnode

fun node_count :: "hnode \<Rightarrow> int" where
  "node_count (Leaf w c) = c"
| "node_count (Parent i c l r) = c"

definition node_comp :: "hnode \<Rightarrow> hnode \<Rightarrow> bool" where
  "node_comp v1 v2 = (node_count v1 > node_count v2)"

text \<open>
  \<^verbatim>\<open>lower_bound(heap.begin(), heap.end(), parent, HuffmanNode::comp)\<close>: the first position
  whose element does not come before \<open>parent\<close>, in a heap that \<open>comp\<close> partitions.
\<close>

definition lower_bound :: "hnode list \<Rightarrow> hnode \<Rightarrow> nat" where
  "lower_bound heap v = length (takeWhile (\<lambda>e. node_comp e v) heap)"

text \<open>The loop \<^verbatim>\<open>for (int i = 0; heap.size() > 1; i++)\<close> of \<^verbatim>\<open>createBinaryTree\<close>.\<close>

function huffman_loop :: "int \<Rightarrow> hnode list \<Rightarrow> hnode list" where
  "huffman_loop i heap =
     (if length heap > 1 then
        (let left = last heap;
             heap1 = butlast heap;
             right = last heap1;
             heap2 = butlast heap1;
             parent = Parent i (node_count left + node_count right) left right;
             it = lower_bound heap2 parent
         in huffman_loop (i + 1) (take it heap2 @ [parent] @ drop it heap2))
      else heap)"
  by pat_completeness auto
termination
  by (relation "measure (\<lambda>(i, heap). length heap)") auto

declare huffman_loop.simps [simp del]

text \<open>
  The assignments \<^verbatim>\<open>node->code = code; node->parents = parents\<close> through the pointer to
  the vocabulary entry with key \<open>w\<close>.
\<close>

definition set_codes :: "string \<Rightarrow> int list \<Rightarrow> int list \<Rightarrow> (string \<times> HuffmanNode) list
    \<Rightarrow> (string \<times> HuffmanNode) list" where
  "set_codes w cd ps v =
     map (\<lambda>(k, n). if k = w then (k, n\<lparr>code := cd, parents := ps\<rparr>) else (k, n)) v"

text \<open>
  \<^verbatim>\<open>void MonolingualModel::assignCodes(HuffmanNode* node, vector<int> code, vector<int>
  parents) const\<close>: the vocabulary is the state that the recursion updates.
\<close>

fun assignCodes :: "hnode \<Rightarrow> int list \<Rightarrow> int list \<Rightarrow> (string \<times> HuffmanNode) list
    \<Rightarrow> (string \<times> HuffmanNode) list" where
  "assignCodes (Leaf w c) code' parents' v = set_codes w code' parents' v"
| "assignCodes (Parent i c l r) code' parents' v =
     (let parents'' = parents' @ [i];
          code_left = code' @ [0];
          code_right = code' @ [1]
      in assignCodes r code_right parents'' (assignCodes l code_left parents'' v))"

text \<open>
  The heap after \<^verbatim>\<open>std::sort(heap.begin(), heap.end(), HuffmanNode::comp)\<close>. The order
  that \<^verbatim>\<open>std::sort\<close> gives to entries of equal count is not specified; the model keeps
  them in the order of the vocabulary.
\<close>

definition initial_heap :: "(string \<times> HuffmanNode) list \<Rightarrow> hnode list" where
  "initial_heap v = sort_key (\<lambda>t. - node_count t) (map (\<lambda>(w, n). Leaf w (count n)) v)"

text \<open>
  \<^verbatim>\<open>void MonolingualModel::createBinaryTree()\<close>. On an empty vocabulary
  \<^verbatim>\<open>heap.front()\<close> reads an empty vector.
\<close>

definition createBinaryTree :: "MonolingualModel \<Rightarrow> error + MonolingualModel" where
  "createBinaryTree m =
     (case huffman_loop 0 (initial_heap (vocabulary m)) of
        [] \<Rightarrow> Inl UndefinedBehaviour
      | front # rest \<Rightarrow> Inr (m\<lparr>vocabulary := assignCodes front [] [] (vocabulary m)\<rparr>))"

subsection \<open>Paths of a tree, as the specification describes them\<close>

text \<open>
  The leaves of a tree, each with its code and its list of parents as the specification
  words them: the indices of the inner nodes from the root (inclusive) to the leaf
  (exclusive), in this order, and for each of them the bit 0 when the path goes on to its
  left child and 1 when it goes on to its right child.
\<close>

fun paths :: "hnode \<Rightarrow> (string \<times> int list \<times> int list) list" where
  "paths (Leaf w c) = [(w, [], [])]"
| "paths (Parent i c l r) =
     map (\<lambda>(w, cd, ps). (w, 0 # cd, i # ps)) (paths l)
     @ map (\<lambda>(w, cd, ps). (w, 1 # cd, i # ps)) (paths r)"

fun leaves :: "hnode \<Rightarrow> string list" where
  "leaves (Leaf w c) = [w]"
| "leaves (Parent i c l r) = leaves l @ leaves r"

text \<open>The words at the leaves of a forest, counted with multiplicity.\<close>

definition forest_leaves :: "hnode list \<Rightarrow> string multiset" where
  "forest_leaves heap = mset (concat (map leaves heap))"

section \<open>Invariants of the edit-distance table\<close>

text \<open>The shape of the table: \<open>len1 + 1\<close> rows of \<open>len2 + 1\<close> cells.\<close>

definition table_dims :: "table \<Rightarrow> nat \<Rightarrow> nat \<Rightarrow> bool" where
  "table_dims d len1 len2 = (length d = Suc len1 \<and> (\<forall>i\<le>len1. length (d ! i) = Suc len2))"

text \<open>Rows below \<open>k\<close> hold the values of the recurrence, and so does column 0.\<close>

definition rows_done :: "(nat \<Rightarrow> nat \<Rightarrow> real) \<Rightarrow> nat \<Rightarrow> nat \<Rightarrow> nat \<Rightarrow> table \<Rightarrow> bool" where
  "rows_done c len1 len2 k d =
     (table_dims d len1 len2 \<and> (\<forall>i\<le>len1. d ! i ! 0 = real i) \<and>
      (\<forall>i<k. \<forall>j\<le>len2. d ! i ! j = levenshtein c i j))"

definition cells_done :: "(nat \<Rightarrow> nat \<Rightarrow> real) \<Rightarrow> nat \<Rightarrow> nat \<Rightarrow> nat \<Rightarrow> nat \<Rightarrow> table \<Rightarrow> bool" where
  "cells_done c len1 len2 k l d =
     (rows_done c len1 len2 k d \<and> (\<forall>j<l. d ! k ! j = levenshtein c k j))"

definition cell_value :: "(nat \<Rightarrow> nat \<Rightarrow> real) \<Rightarrow> nat \<Rightarrow> nat \<Rightarrow> table \<Rightarrow> table" where
  "cell_value c i j d =
     table_set d i j
       (min (d ! (i - 1) ! j + 1) (min (d ! i ! (j - 1) + 1) (d ! (i - 1) ! (j - 1) + c i j)))"

section \<open>Well-formed models and example inputs\<close>

text \<open>
  What \<^verbatim>\<open>initNet\<close> and \<^verbatim>\<open>reduceVocab\<close> establish: one row of width \<open>dimension\<close> per
  vocabulary entry in the input and output matrices, and every index within \<open>[0, V)\<close>.
\<close>

definition wf_model :: "MonolingualModel \<Rightarrow> bool" where
  "wf_model m =
     (length (input_weights m) = length (vocabulary m) \<and>
      length (output_weights m) = length (vocabulary m) \<and>
      list_all (\<lambda>r. length r = dimension (config m)) (input_weights m) \<and>
      list_all (\<lambda>r. length r = dimension (config m)) (output_weights m) \<and>
      list_all (\<lambda>(w, n). 0 \<le> index n \<and> index n < int (length (vocabulary m))) (vocabulary m))"

text \<open>
  For training, \<^verbatim>\<open>initNet\<close> gives the matrix of the hierarchical softmax the same
  shape.
\<close>

definition wf_net :: "MonolingualModel \<Rightarrow> bool" where
  "wf_net m =
     (wf_model m \<and>
      list_all (\<lambda>r. length r = dimension (config m)) (output_weights_hs m))"

definition toy_config :: Config where
  "toy_config = \<lparr>dimension = 2, negative = 0, hierarchical_softmax = True, no_average = False,
     window_size = 5, learning_rate = 0.05, iterations = 1, threads = 1\<rparr>"

definition toy_node :: "string \<Rightarrow> int \<Rightarrow> HuffmanNode" where
  "toy_node w i = \<lparr>word = w, index = i, count = 1, code = [], parents = []\<rparr>"

text \<open>A model whose vocabulary is \<open>{x, z}\<close>, trained without negative sampling.\<close>

definition toy_model :: MonolingualModel where
  "toy_model = \<lparr>config = toy_config, input_weights = [[1, 0], [0, 1]],
     output_weights = [[0, 0], [0, 0]], output_weights_hs = [[0, 0], [0, 0]],
     vocabulary = [(''x'', toy_node ''x'' 0), (''z'', toy_node ''z'' 1)], unigram_table = []\<rparr>"

text \<open>The same vocabulary with \<open>negative = 5\<close> and non-zero output weights.\<close>

definition toy_model_neg :: MonolingualModel where
  "toy_model_neg = toy_model\<lparr>config := toy_config\<lparr>negative := 5\<rparr>,
     output_weights := [[2, 3], [4, 5]]\<rparr>"

text \<open>A model whose vocabulary is \<open>{a, b, c}\<close>.\<close>

definition toy_abc :: MonolingualModel where
  "toy_abc = \<lparr>config = toy_config, input_weights = [[1, 0], [0, 1], [1, 1]],
     output_weights = [[0, 0], [0, 0], [0, 0]], output_weights_hs = [[0, 0], [0, 0], [0, 0]],
     vocabulary = [(''a'', toy_node ''a'' 0), (''b'', toy_node ''b'' 1), (''c'', toy_node ''c'' 2)],
     unigram_table = []\<rparr>"

text \<open>Two copies of the model over \<open>{x, z}\<close>, aligned with two threads.\<close>

definition toy_bilingual :: BilingualModel where
  "toy_bilingual = \<lparr>src_model = toy_model, trg_model = toy_model,
     bi_config = toy_config\<lparr>threads := 2\<rparr>\<rparr>"

text \<open>
  A vocabulary with given counts, indexed in order, and the counts of the specification's
  scenario: \<open>w1: 5, w2: 3, w3: 3, w4: 1\<close>.
\<close>

definition huffman_counts :: "(string \<times> int) list \<Rightarrow> MonolingualModel" where
  "huffman_counts wc = \<lparr>config = toy_config, input_weights = [], output_weights = [],
     output_weights_hs = [],
     vocabulary = map (\<lambda>(i, (w, c)). (w, \<lparr>word = w, index = int i, count = c, code = [], parents = []\<rparr>))
                    (enumerate 0 wc),
     unigram_table = []\<rparr>"

definition example_counts :: MonolingualModel where
  "example_counts = huffman_counts [(''w1'', 5), (''w2'', 3), (''w3'', 3), (''w4'', 1)]"

text \<open>
  A training run with two threads and two iterations over a corpus of four lines, each
  made of 10000 times the word \<open>x\<close> of the vocabulary:
  \<^verbatim>\<open>chunkify\<close> gives two lines to each worker.
  The run takes \<open>training_words = 40000\<close>. The states that follow are those of one
  run, in its order; \<open>race_line\<close> is a line of the corpus.
\<close>

definition race_config :: Config where
  "race_config = toy_config\<lparr>iterations := 2, threads := 2\<rparr>"

definition race_model :: MonolingualModel where
  "race_model = toy_model\<lparr>config := race_config\<rparr>"

definition race_line :: string where
  "race_line = concat (replicate 10000 ''x '')"

text \<open>Worker 0 has read its two lines: each one reached 10000 words and was flushed.\<close>

definition race_s1 :: training where
  "race_s1 = \<lparr>words_processed = 10000,
     workers = [\<lparr>alpha = 0.04375, word_count = 0, loaded = None\<rparr>,
                \<lparr>alpha = 0.05, word_count = 0, loaded = None\<rparr>]\<rparr>"

definition race_s2 :: training where
  "race_s2 = \<lparr>words_processed = 20000,
     workers = [\<lparr>alpha = 0.0375, word_count = 0, loaded = None\<rparr>,
                \<lparr>alpha = 0.05, word_count = 0, loaded = None\<rparr>]\<rparr>"

text \<open>Worker 0 leaves the loop and reads the counter, 20000, at the end of its first epoch.\<close>

definition race_s3 :: training where
  "race_s3 = \<lparr>words_processed = 20000,
     workers = [\<lparr>alpha = 0.0375, word_count = 0, loaded = Some 20000\<rparr>,
                \<lparr>alpha = 0.05, word_count = 0, loaded = None\<rparr>]\<rparr>"

text \<open>Before worker 0 writes, worker 1 reads its two lines and flushes twice.\<close>

definition race_s4 :: training where
  "race_s4 = \<lparr>words_processed = 30000,
     workers = [\<lparr>alpha = 0.0375, word_count = 0, loaded = Some 20000\<rparr>,
                \<lparr>alpha = 0.03125, word_count = 0, loaded = None\<rparr>]\<rparr>"

definition race_s5 :: training where
  "race_s5 = \<lparr>words_processed = 40000,
     workers = [\<lparr>alpha = 0.0375, word_count = 0, loaded = Some 20000\<rparr>,
                \<lparr>alpha = 0.025, word_count = 0, loaded = None\<rparr>]\<rparr>"

text \<open>Worker 0 writes \<open>20000 + word_count = 20000\<close>: the two flushes of worker 1 are lost.\<close>

definition race_s6 :: training where
  "race_s6 = \<lparr>words_processed = 20000,
     workers = [\<lparr>alpha = 0.0375, word_count = 0, loaded = None\<rparr>,
                \<lparr>alpha = 0.025, word_count = 0, loaded = None\<rparr>]\<rparr>"

text \<open>
  Worker 1 ends its first epoch: it reads 20000, and its write of 20000 gives the state
  \<open>race_s6\<close> again.
\<close>

definition race_s7 :: training where
  "race_s7 = \<lparr>words_processed = 20000,
     workers = [\<lparr>alpha = 0.0375, word_count = 0, loaded = None\<rparr>,
                \<lparr>alpha = 0.025, word_count = 0, loaded = Some 20000\<rparr>]\<rparr>"

text \<open>
  Worker 1 reads the first line of its second epoch and flushes: the counter is 30000 and
  its learning rate is computed from it.
\<close>

definition race_s8 :: training where
  "race_s8 = \<lparr>words_processed = 30000,
     workers = [\<lparr>alpha = 0.0375, word_count = 0, loaded = None\<rparr>,
                \<lparr>alpha = 0.03125, word_count = 0, loaded = None\<rparr>]\<rparr>"

text \<open>
  A model over \<open>{a, b, c}\<close> with \<open>no_average\<close> set, whose three leaves hang under the
  inner node 0, and the sentence \<open>a b c\<close>; and the same model with \<open>no_average\<close> off.
\<close>

definition cbow_node :: "string \<Rightarrow> int \<Rightarrow> int list \<Rightarrow> int list \<Rightarrow> HuffmanNode" where
  "cbow_node w i cd ps = \<lparr>word = w, index = i, count = 1, code = cd, parents = ps\<rparr>"

definition cbow_model :: MonolingualModel where
  "cbow_model = \<lparr>config = toy_config\<lparr>no_average := True\<rparr>,
     input_weights = [[1, 0], [0, 1], [1, 1]],
     output_weights = [[0, 0], [0, 0], [0, 0]],
     output_weights_hs = [[1, -2], [0, 0], [0, 0]],
     vocabulary = [(''a'', cbow_node ''a'' 0 [0] [0]), (''b'', cbow_node ''b'' 1 [1] [0]),
                   (''c'', cbow_node ''c'' 2 [1] [0])],
     unigram_table = []\<rparr>"

definition cbow_sentence :: "HuffmanNode list" where
  "cbow_sentence = [cbow_node ''a'' 0 [0] [0], cbow_node ''b'' 1 [1] [0], cbow_node ''c'' 2 [1] [0]]"

definition cbow_model_avg :: MonolingualModel where
  "cbow_model_avg = cbow_model\<lparr>config := toy_config\<rparr>"

text \<open>A sentence vector for the sentence \<open>a b c\<close>.\<close>

definition cbow_sent_vec :: vec where
  "cbow_sent_vec = [2, 1]"

section \<open>Properties of the query layer\<close>

subsection \<open>Well-formed models read their matrices within range\<close>

lemma wf_index:
  assumes "wf_model m" "map_of (vocabulary m) w = Some node"
  shows "0 \<le> index node" "index node < int (length (vocabulary m))"
proof -
  from assms(2) have "(w, node) \<in> set (vocabulary m)" by (rule map_of_SomeD)
  with assms(1) show "0 \<le> index node" "index node < int (length (vocabulary m))"
    by (auto simp: wf_model_def list_all_iff)
qed

lemma wf_row_input:
  assumes "wf_model m" "0 \<le> i" "i < int (length (vocabulary m))"
  shows "row (input_weights m) i = Inr (input_weights m ! nat i)"
    and "length (input_weights m ! nat i) = dimension (config m)"
  using assms by (auto simp: wf_model_def row_def list_all_length)

lemma wf_row_output:
  assumes "wf_model m" "0 \<le> i" "i < int (length (vocabulary m))"
  shows "row (output_weights m) i = Inr (output_weights m ! nat i)"
    and "length (output_weights m ! nat i) = dimension (config m)"
  using assms by (auto simp: wf_model_def row_def list_all_length)

lemma wf_wordVec_index:
  assumes "wf_model m" "0 \<le> i" "i < int (length (vocabulary m))"
  shows "wordVec_index m i policy =
     (if policy = 1 \<and> negative (config m) > 0
        then Inr (input_weights m ! nat i @ output_weights m ! nat i)
      else if policy = 2 \<and> negative (config m) > 0
        then Inr (vadd (input_weights m ! nat i) (output_weights m ! nat i))
      else if policy = 3 \<and> negative (config m) > 0 then Inr (output_weights m ! nat i)
      else Inr (input_weights m ! nat i))"
  using wf_row_input[OF assms] wf_row_output[OF assms]
  by (simp add: wordVec_index_def and_then_def components_def)

lemma wf_toy_model: "wf_model toy_model"
  by (simp add: wf_model_def toy_model_def toy_config_def toy_node_def)

lemma wf_toy_model_neg: "wf_model toy_model_neg"
  by (simp add: wf_model_def toy_model_neg_def toy_model_def toy_config_def toy_node_def)

subsection \<open>The cosine is at most 1\<close>

lemma dot_Nil [simp]: "dot [] b = 0" "dot a [] = 0"
  by (simp_all add: dot_def)

lemma dot_Cons [simp]: "dot (x # xs) (y # ys) = x * y + dot xs ys"
  by (simp add: dot_def)

lemma dot_self_nonneg: "0 \<le> dot a a"
  by (induction a) simp_all

lemma four_mult_le_sum_sq:
  fixes p q :: real
  shows "4 * p * q \<le> (p + q)\<^sup>2"
proof -
  have "(p + q)\<^sup>2 - 4 * p * q = (p - q)\<^sup>2" by algebra
  moreover have "0 \<le> (p - q)\<^sup>2" by (rule zero_le_power2)
  ultimately show ?thesis by linarith
qed

lemma cauchy_step:
  fixes x y A B C :: real
  assumes "C\<^sup>2 \<le> A * B" "0 \<le> A" "0 \<le> B"
  shows "(x * y + C)\<^sup>2 \<le> (x * x + A) * (y * y + B)"
proof -
  define p where "p = x\<^sup>2 * B"
  define q where "q = A * y\<^sup>2"
  define u where "u = 2 * x * y * C"
  have p0: "0 \<le> p"
    unfolding p_def using assms(3) by (intro mult_nonneg_nonneg zero_le_power2)
  have q0: "0 \<le> q"
    unfolding q_def using assms(2) by (intro mult_nonneg_nonneg zero_le_power2)
  have "u\<^sup>2 = (4 * (x\<^sup>2 * y\<^sup>2)) * C\<^sup>2"
    unfolding u_def by algebra
  also have "\<dots> \<le> (4 * (x\<^sup>2 * y\<^sup>2)) * (A * B)"
    by (intro mult_left_mono[OF assms(1)] mult_nonneg_nonneg zero_le_power2) simp
  also have "\<dots> = 4 * p * q" unfolding p_def q_def by algebra
  also have "\<dots> \<le> (p + q)\<^sup>2" by (rule four_mult_le_sum_sq)
  finally have "u\<^sup>2 \<le> (p + q)\<^sup>2" .
  moreover have "0 \<le> p + q" using p0 q0 by linarith
  ultimately have h: "u \<le> p + q" by (rule power2_le_imp_le)
  have e1: "(x * y + C)\<^sup>2 = x\<^sup>2 * y\<^sup>2 + u + C\<^sup>2"
    unfolding u_def by algebra
  have e2: "(x * x + A) * (y * y + B) = x\<^sup>2 * y\<^sup>2 + (p + q) + A * B"
    unfolding p_def q_def by algebra
  show ?thesis
    unfolding e1 e2 using h assms(1) by linarith
qed

lemma dot_cauchy_schwarz: "(dot a b)\<^sup>2 \<le> dot a a * dot b b"
proof (induction a arbitrary: b)
  case Nil
  then show ?case by simp
next
  case (Cons x xs)
  show ?case
  proof (cases b)
    case Nil
    then show ?thesis by simp
  next
    case (Cons y ys)
    have "(x * y + dot xs ys)\<^sup>2 \<le> (x * x + dot xs xs) * (y * y + dot ys ys)"
      by (rule cauchy_step[OF Cons.IH dot_self_nonneg dot_self_nonneg])
    with Cons show ?thesis by simp
  qed
qed

lemma cosineSimilarity_le_1: "cosineSimilarity v1 v2 \<le> 1"
proof -
  have "\<bar>dot v1 v2\<bar> = sqrt ((dot v1 v2)\<^sup>2)" by simp
  also have "\<dots> \<le> sqrt (dot v1 v1 * dot v2 v2)"
    using dot_cauchy_schwarz by (rule real_sqrt_le_mono)
  also have "\<dots> = norm2 v1 * norm2 v2"
    by (simp add: norm2_def real_sqrt_mult)
  finally have le: "dot v1 v2 \<le> norm2 v1 * norm2 v2" by simp
  have nonneg: "0 \<le> norm2 v1 * norm2 v2"
    by (simp add: norm2_def dot_self_nonneg)
  show ?thesis
  proof (cases "norm2 v1 * norm2 v2 = 0")
    case True
    then show ?thesis by (simp add: cosineSimilarity_def)
  next
    case False
    with nonneg have "0 < norm2 v1 * norm2 v2" by linarith
    with le show ?thesis by (simp add: cosineSimilarity_def Let_def)
  qed
qed

subsection \<open>similarity and distance on a well-formed model\<close>

lemma wf_similarity:
  assumes "wf_model m"
  shows "\<exists>s. similarity m word1 word2 policy = Inr s \<and> s \<le> 1"
proof (cases "map_of (vocabulary m) word1")
  case None
  then show ?thesis by (simp add: similarity_def)
next
  case (Some n1)
  note s1 = this
  show ?thesis
  proof (cases "map_of (vocabulary m) word2")
    case None
    with s1 show ?thesis by (simp add: similarity_def)
  next
    case (Some n2)
    note i1 = wf_index[OF assms s1] and i2 = wf_index[OF assms Some]
    obtain v1 where v1: "wordVec_index m (index n1) policy = Inr v1"
      using wf_wordVec_index[OF assms i1, of policy] by (auto split: if_splits)
    obtain v2 where v2: "wordVec_index m (index n2) policy = Inr v2"
      using wf_wordVec_index[OF assms i2, of policy] by (auto split: if_splits)
    show ?thesis
      using s1 Some v1 v2 cosineSimilarity_le_1[of v1 v2]
      by (simp add: similarity_def and_then_def)
  qed
qed

lemma similarity_same_word:
  assumes "map_of (vocabulary m) w = Some node"
  shows "similarity m w w policy = Inr 1"
  using assms by (simp add: similarity_def)

lemma wf_distance:
  assumes "wf_model m"
  shows "distance m word1 word2 policy = Inr (distance_value m policy word1 word2)"
    and "0 \<le> distance_value m policy word1 word2"
proof -
  obtain s where s: "similarity m word1 word2 policy = Inr s" "s \<le> 1"
    using wf_similarity[OF assms] by blast
  then show "distance m word1 word2 policy = Inr (distance_value m policy word1 word2)"
    and "0 \<le> distance_value m policy word1 word2"
    by (simp_all add: distance_def distance_value_def and_then_def)
qed

lemma distance_value_same_word:
  assumes "map_of (vocabulary m) w = Some node"
  shows "distance_value m policy w w = 0"
  using similarity_same_word[OF assms]
  by (simp add: distance_def distance_value_def and_then_def)

subsection \<open>similarityNgrams\<close>

text \<open>
  What the function computes on a well-formed model when the second sequence is at least
  as long as the first: every pair is counted, and the only failure is on an empty first
  sequence.
\<close>

lemma wf_similarity_value:
  assumes "wf_model m"
  shows "similarity m word1 word2 policy = Inr (similarity_value m policy word1 word2)"
  using wf_similarity[OF assms, of word1 word2 policy]
  by (auto simp: similarity_value_def)

lemma ngrams_loop_counts_all:
  assumes "wf_model m" and "length words1 \<le> length words2" and "i \<le> length words1"
  shows "ngrams_loop m policy words1 words2 i res n
     = Inr (res + (\<Sum>k = i..<length words1. similarity_value m policy (words1 ! k) (words2 ! k)),
            n + int (length words1 - i))"
  using assms(3)
proof (induction "length words1 - i" arbitrary: i res n)
  case 0
  then have "i = length words1" by simp
  then show ?case by (subst ngrams_loop.simps) simp
next
  case (Suc d)
  then have i: "i < length words1" "i < length words2"
    using assms(2) by simp_all
  have d: "d = length words1 - Suc i" using Suc.hyps(2) by simp
  have "ngrams_loop m policy words1 words2 i res n
      = ngrams_loop m policy words1 words2 (Suc i)
          (res + similarity_value m policy (words1 ! i) (words2 ! i)) (n + 1)"
    using i by (subst ngrams_loop.simps) (simp add: wf_similarity_value[OF assms(1)])
  also have "\<dots> = Inr (res + similarity_value m policy (words1 ! i) (words2 ! i)
        + (\<Sum>k = Suc i..<length words1. similarity_value m policy (words1 ! k) (words2 ! k)),
        n + 1 + int (length words1 - Suc i))"
    using i by (intro Suc.hyps(1)[OF d]) simp
  also have "\<dots> = Inr (res
        + (\<Sum>k = i..<length words1. similarity_value m policy (words1 ! k) (words2 ! k)),
        n + int (length words1 - i))"
    using i by (simp add: sum.atLeast_Suc_lessThan Suc_diff_Suc)
  finally show ?case .
qed

lemma similarityNgrams_counts_all:
  assumes "wf_model m" and "length (split seq1) \<le> length (split seq2)"
  shows "similarityNgrams m seq1 seq2 policy =
     (if split seq1 = [] then Inl AllOOV
      else Inr ((\<Sum>k = 0..<length (split seq1).
                   similarity_value m policy (split seq1 ! k) (split seq2 ! k))
                / real (length (split seq1))))"
  by (simp add: similarityNgrams_def Let_def ngrams_loop_counts_all[OF assms])

text \<open>
  C1. The specification has \<^verbatim>\<open>similarityNgrams\<close> average the pairwise similarities over
  the pairs with both words in the vocabulary, so that \<^verbatim>\<open>"x y z"\<close> against
  \<^verbatim>\<open>"x q z"\<close> with vocabulary \<open>{x, z}\<close> gives 1, and \<^verbatim>\<open>"w w"\<close> against \<^verbatim>\<open>"u u"\<close>
  fails with \<open>AllOOV\<close>. The code does not: \<^verbatim>\<open>similarity\<close> returns 0 for an unknown word
  instead of raising, the \<^verbatim>\<open>catch\<close> never runs, and every pair is counted. The first
  call returns 2/3 and the second returns 0.
\<close>

theorem similarityNgrams_counts_oov_pairs:
  "similarityNgrams toy_model ''x y z'' ''x q z'' 0 = Inr (2 / 3)
   \<and> similarityNgrams toy_model ''w w'' ''u u'' 0 = Inr 0"
  by (simp add: similarityNgrams_def split_def is_space_def ngrams_loop.simps similarity_def
      toy_model_def toy_node_def)

text \<open>
  C2. The specification has \<^verbatim>\<open>similarityNgrams\<close> fail with \<open>ShapeMismatch\<close> when the
  two token sequences differ in length. The code compares \<^verbatim>\<open>words2.size()\<close> with itself, so the
  check never fires: \<^verbatim>\<open>"x"\<close> against \<^verbatim>\<open>"x z"\<close> returns the similarity 1.
\<close>

theorem similarityNgrams_accepts_unequal_lengths:
  "length (split ''x'') \<noteq> length (split ''x z'')
   \<and> similarityNgrams toy_model ''x'' ''x z'' 0 = Inr 1"
  by (simp add: similarityNgrams_def split_def is_space_def ngrams_loop.simps similarity_def
      toy_model_def toy_node_def)

subsection \<open>wordVec\<close>

text \<open>
  C3, as amended. For a word of the vocabulary of a well-formed model and a policy in
  \<open>{1, 2, 3}\<close>, \<^verbatim>\<open>wordVec\<close> never fails. With \<open>negative > 0\<close>, policy 1 returns the
  input row followed by the output row (\<open>2 * dimension\<close> components), policy 2 their
  element-wise sum and policy 3 the output row. Without negative sampling
  (\<open>negative \<le> 0\<close>) each of the three policies falls back to the input row, as policy 0.
\<close>

theorem wordVec_policy_fallback:
  assumes "wf_model m" and "map_of (vocabulary m) w = Some node" and "policy \<in> {1, 2, 3}"
  shows "wordVec m w policy =
     (if negative (config m) > 0 then
        (if policy = 1
           then Inr (input_weights m ! nat (index node) @ output_weights m ! nat (index node))
         else if policy = 2
           then Inr (vadd (input_weights m ! nat (index node)) (output_weights m ! nat (index node)))
         else Inr (output_weights m ! nat (index node)))
      else Inr (input_weights m ! nat (index node)))
    \<and> length (input_weights m ! nat (index node) @ output_weights m ! nat (index node))
        = 2 * dimension (config m)
    \<and> vadd (input_weights m ! nat (index node)) (output_weights m ! nat (index node))
        = map (\<lambda>c. input_weights m ! nat (index node) ! c + output_weights m ! nat (index node) ! c)
            [0..<dimension (config m)]"
proof -
  note ix = wf_index[OF assms(1,2)]
  have wv: "wordVec m w policy = wordVec_index m (index node) policy"
    using assms(2) by (simp add: wordVec_def)
  have len: "length (input_weights m ! nat (index node)) = dimension (config m)"
        "length (output_weights m ! nat (index node)) = dimension (config m)"
    using wf_row_input(2)[OF assms(1) ix] wf_row_output(2)[OF assms(1) ix] by simp_all
  have sum: "vadd (input_weights m ! nat (index node)) (output_weights m ! nat (index node))
        = map (\<lambda>c. input_weights m ! nat (index node) ! c + output_weights m ! nat (index node) ! c)
            [0..<dimension (config m)]"
    using len by (auto simp: vadd_def intro!: nth_equalityI)
  show ?thesis
    using assms(3) len sum by (auto simp: wv wf_wordVec_index[OF assms(1) ix])
qed

theorem wordVec_policy_fallback_witness:
  "wf_model toy_model_neg \<and> map_of (vocabulary toy_model_neg) ''x'' = Some (toy_node ''x'' 0)
   \<and> (1::int) \<in> {1, 2, 3} \<and> wordVec toy_model_neg ''x'' 1 = Inr [1, 0, 2, 3]"
proof -
  have w: "wf_model toy_model_neg" by (rule wf_toy_model_neg)
  have v: "map_of (vocabulary toy_model_neg) ''x'' = Some (toy_node ''x'' 0)"
    by (simp add: toy_model_neg_def toy_model_def)
  have p: "(1::int) \<in> {1, 2, 3}" by simp
  have "wordVec toy_model_neg ''x'' 1 = Inr [1, 0, 2, 3]"
    using wordVec_policy_fallback[OF w v p]
    by (simp add: toy_model_neg_def toy_model_def toy_config_def toy_node_def)
  with w v p show ?thesis by blast
qed

text \<open>
  The statement of the specification, that these policies fail without negative
  sampling, does not hold: with \<open>negative = 0\<close>, policy 1 on the vocabulary word
  \<open>x\<close> returns its input row instead of failing.
\<close>

theorem wordVec_negative_zero_counterexample:
  "negative (config toy_model) = 0
   \<and> map_of (vocabulary toy_model) ''x'' = Some (toy_node ''x'' 0)
   \<and> wordVec toy_model ''x'' 1 = Inr [1, 0]"
  by (simp add: wordVec_def wordVec_index_def row_def toy_model_def toy_config_def toy_node_def)

subsection \<open>closest\<close>

text \<open>
  Within the range of the candidates the function returns the \<open>n\<close> best of the other
  terms, in descending order; an unknown word raises; and a larger \<open>n\<close> leaves the range
  of the vector.
\<close>

lemma best_in_set: "xs \<noteq> [] \<Longrightarrow> best xs \<in> set xs"
  by (induction xs rule: best.induct) (auto simp: Let_def)

lemma best_greatest: "x \<in> set xs \<Longrightarrow> snd x \<le> snd (best xs)"
  by (induction xs rule: best.induct) (auto simp: Let_def comp_pair_def)

lemma length_remove1_best:
  "length (remove1 (best (x # xs)) (x # xs)) = length xs"
proof -
  have "best (x # xs) \<in> set (x # xs)" by (rule best_in_set) simp
  then have "length (remove1 (best (x # xs)) (x # xs)) = length (x # xs) - 1"
    by (simp only: length_remove1 if_True)
  then show ?thesis by simp
qed

lemma length_partial_sort [simp]: "length (partial_sort n xs) = length xs"
proof (induction n xs rule: partial_sort.induct)
  case (3 n x xs)
  then show ?case
    by (simp only: partial_sort.simps Let_def length_Cons length_remove1_best)
qed simp_all

lemma insert_remove1: "b \<in> set ys \<Longrightarrow> insert b (set (remove1 b ys)) = set ys"
  by (induction ys) auto

lemma set_partial_sort [simp]: "set (partial_sort n xs) = set xs"
proof (induction n xs rule: partial_sort.induct)
  case (3 n x xs)
  have b: "best (x # xs) \<in> set (x # xs)" by (rule best_in_set) simp
  have "set (partial_sort (Suc n) (x # xs))
      = insert (best (x # xs)) (set (remove1 (best (x # xs)) (x # xs)))"
    using 3 by (simp only: partial_sort.simps Let_def list.set)
  also have "\<dots> = set (x # xs)"
    using b by (rule insert_remove1)
  finally show ?case .
qed simp_all

lemma partial_sort_descending:
  "n \<le> length xs \<Longrightarrow> descending (take n (partial_sort n xs))"
proof (induction n xs rule: partial_sort.induct)
  case (1 xs)
  then show ?case by (simp add: descending_def)
next
  case (2 n)
  then show ?case by simp
next
  case (3 n x xs)
  let ?b = "best (x # xs)"
  let ?rest = "remove1 ?b (x # xs)"
  have len: "n \<le> length ?rest"
    using "3.prems" by (simp only: length_remove1_best) simp
  have IH: "descending (take n (partial_sort n ?rest))"
    using "3.IH"[OF refl len] .
  have "snd q \<le> snd ?b" if "q \<in> set (take n (partial_sort n ?rest))" for q
  proof -
    from that have "q \<in> set (partial_sort n ?rest)" by (rule in_set_takeD)
    then have "q \<in> set ?rest" by (simp only: set_partial_sort)
    then have "q \<in> set (x # xs)" by (rule subsetD[OF set_remove1_subset])
    then show ?thesis by (rule best_greatest)
  qed
  with IH have "descending (?b # take n (partial_sort n ?rest))"
    by (simp add: descending_def)
  then show ?case
    by (simp only: partial_sort.simps Let_def take_Suc_Cons)
qed

lemma closest_loop_candidates:
  assumes "wf_model m"
    and "\<forall>e\<in>set entries. 0 \<le> index (snd e) \<and> index (snd e) < int (length (vocabulary m))"
  shows "\<exists>cands. closest_loop m i v1 policy entries res = Inr (res @ cands)
           \<and> length cands = length (filter (\<lambda>e. index (snd e) \<noteq> i) entries)
           \<and> (\<forall>p\<in>set cands. \<exists>e\<in>set entries. index (snd e) \<noteq> i \<and> fst p = word (snd e))"
  using assms(2)
proof (induction entries arbitrary: res)
  case Nil
  then show ?case by simp
next
  case (Cons e entries)
  then have rest: "\<forall>e\<in>set entries. 0 \<le> index (snd e) \<and> index (snd e) < int (length (vocabulary m))"
    and e: "0 \<le> index (snd e)" "index (snd e) < int (length (vocabulary m))"
    by simp_all
  show ?case
  proof (cases "index (snd e) = i")
    case True
    obtain cands where c: "closest_loop m i v1 policy entries res = Inr (res @ cands)"
      "length cands = length (filter (\<lambda>e. index (snd e) \<noteq> i) entries)"
      "\<forall>p\<in>set cands. \<exists>e\<in>set entries. index (snd e) \<noteq> i \<and> fst p = word (snd e)"
      using Cons.IH[OF rest, of res] by blast
    have "closest_loop m i v1 policy (e # entries) res = Inr (res @ cands)"
      using True c(1) by simp
    moreover have "length cands = length (filter (\<lambda>e. index (snd e) \<noteq> i) (e # entries))"
      using True c(2) by simp
    moreover have "\<forall>p\<in>set cands. \<exists>e'\<in>set (e # entries). index (snd e') \<noteq> i \<and> fst p = word (snd e')"
      using c(3) by fastforce
    ultimately show ?thesis by blast
  next
    case False
    obtain v2 where v2: "wordVec_index m (index (snd e)) policy = Inr v2"
      using wf_wordVec_index[OF assms(1) e, of policy] by (auto split: if_splits)
    obtain cands where c: "closest_loop m i v1 policy entries
          (res @ [(word (snd e), cosineSimilarity v1 v2)])
        = Inr ((res @ [(word (snd e), cosineSimilarity v1 v2)]) @ cands)"
      "length cands = length (filter (\<lambda>e. index (snd e) \<noteq> i) entries)"
      "\<forall>p\<in>set cands. \<exists>e\<in>set entries. index (snd e) \<noteq> i \<and> fst p = word (snd e)"
      using Cons.IH[OF rest, of "res @ [(word (snd e), cosineSimilarity v1 v2)]"] by blast
    let ?cands = "(word (snd e), cosineSimilarity v1 v2) # cands"
    have "closest_loop m i v1 policy (e # entries) res = Inr (res @ ?cands)"
      using False v2 c(1) by (simp add: and_then_def)
    moreover have "length ?cands = length (filter (\<lambda>e. index (snd e) \<noteq> i) (e # entries))"
      using False c(2) by simp
    moreover have "\<forall>p\<in>set ?cands. \<exists>e'\<in>set (e # entries). index (snd e') \<noteq> i \<and> fst p = word (snd e')"
      using False c(3) by fastforce
    ultimately show ?thesis by blast
  qed
qed

lemma closest_within_range:
  assumes "wf_model m" and "map_of (vocabulary m) w = Some node"
    and "0 \<le> n"
    and "n \<le> int (length (filter (\<lambda>e. index (snd e) \<noteq> index node) (vocabulary m)))"
  shows "\<exists>res. closest m w n policy = Inr res
           \<and> length res = nat n
           \<and> descending res
           \<and> (\<forall>p\<in>set res. \<exists>e\<in>set (vocabulary m).
                 index (snd e) \<noteq> index node \<and> fst p = word (snd e))"
proof -
  note ix = wf_index[OF assms(1,2)]
  obtain v1 where v1: "wordVec_index m (index node) policy = Inr v1"
    using wf_wordVec_index[OF assms(1) ix, of policy] by (auto split: if_splits)
  have all: "\<forall>e\<in>set (vocabulary m). 0 \<le> index (snd e) \<and> index (snd e) < int (length (vocabulary m))"
    using assms(1) by (auto simp: wf_model_def list_all_iff)
  obtain cands where c: "closest_loop m (index node) v1 policy (vocabulary m) [] = Inr cands"
    "length cands = length (filter (\<lambda>e. index (snd e) \<noteq> index node) (vocabulary m))"
    "\<forall>p\<in>set cands. \<exists>e\<in>set (vocabulary m). index (snd e) \<noteq> index node \<and> fst p = word (snd e)"
    using closest_loop_candidates[OF assms(1) all, of "index node" v1 policy "[]"] by auto
  have n: "nat n \<le> length cands" using assms(3,4) c(2) by simp
  let ?res = "take (nat n) (partial_sort (nat n) cands)"
  have "closest m w n policy = Inr ?res"
    using assms(2,3,4) v1 c(1,2) n
    by (simp add: closest_def and_then_def Let_def)
  moreover have "length ?res = nat n" using n by simp
  moreover have "descending ?res" using n by (rule partial_sort_descending)
  moreover have "set ?res \<subseteq> set cands"
    using set_take_subset[of "nat n" "partial_sort (nat n) cands"] by simp
  then have "\<forall>p\<in>set ?res. \<exists>e\<in>set (vocabulary m).
      index (snd e) \<noteq> index node \<and> fst p = word (snd e)"
    using c(3) by blast
  ultimately show ?thesis by blast
qed

lemma closest_oov:
  "map_of (vocabulary m) w = None \<Longrightarrow> closest m w n policy = Inl OOV"
  by (simp add: closest_def)

lemma closest_beyond_candidates:
  assumes "wf_model m" and "map_of (vocabulary m) w = Some node"
    and "int (length (filter (\<lambda>e. index (snd e) \<noteq> index node) (vocabulary m))) < n"
  shows "closest m w n policy = Inl UndefinedBehaviour"
proof -
  note ix = wf_index[OF assms(1,2)]
  obtain v1 where v1: "wordVec_index m (index node) policy = Inr v1"
    using wf_wordVec_index[OF assms(1) ix, of policy] by (auto split: if_splits)
  have all: "\<forall>e\<in>set (vocabulary m). 0 \<le> index (snd e) \<and> index (snd e) < int (length (vocabulary m))"
    using assms(1) by (auto simp: wf_model_def list_all_iff)
  obtain cands where c: "closest_loop m (index node) v1 policy (vocabulary m) [] = Inr cands"
    "length cands = length (filter (\<lambda>e. index (snd e) \<noteq> index node) (vocabulary m))"
    using closest_loop_candidates[OF assms(1) all, of "index node" v1 policy "[]"] by auto
  show ?thesis
    using assms(2,3) v1 c by (simp add: closest_def and_then_def)
qed

text \<open>
  C5. The specification has \<^verbatim>\<open>closest(w, n, policy)\<close> well defined when \<open>n\<close> exceeds
  the number of candidates, returning all other terms. The code passes \<^verbatim>\<open>res.begin() + n\<close> to
  \<^verbatim>\<open>std::partial_sort\<close> before it compares \<open>n\<close> with \<^verbatim>\<open>res.size()\<close>: with the
  default \<open>n = 10\<close> and a vocabulary of two words the only candidate is followed by an
  iterator nine places past the end, which is undefined behaviour.
\<close>

theorem closest_n_exceeds_candidates:
  "closest toy_model ''x'' 10 0 = Inl UndefinedBehaviour"
  by (simp add: closest_def toy_model_def toy_node_def toy_config_def wordVec_index_def row_def
      and_then_def)

subsection \<open>The loops of softWER\<close>

lemma fold_upt_invariant:
  assumes "a \<le> b" and "P a s"
    and "\<And>i s. a \<le> i \<Longrightarrow> i < b \<Longrightarrow> P i s \<Longrightarrow> P (Suc i) (f i s)"
  shows "P b (fold f [a..<b] s)"
  using assms
proof (induction b)
  case 0
  then show ?case by simp
next
  case (Suc b)
  show ?case
  proof (cases "a = Suc b")
    case True
    with Suc.prems(2) show ?thesis by simp
  next
    case False
    with Suc.prems(1) have ab: "a \<le> b" by simp
    have "P b (fold f [a..<b] s)"
      using ab Suc.prems(2) by (rule Suc.IH) (simp add: Suc.prems(3))
    then have "P (Suc b) (f b (fold f [a..<b] s))"
      using ab by (intro Suc.prems(3)) simp_all
    with ab show ?thesis by simp
  qed
qed

lemma fold_and_then:
  assumes "\<And>x d. x \<in> set xs \<Longrightarrow> f x d = Inr (g x d)"
  shows "fold (\<lambda>x r. and_then r (f x)) xs (Inr d) = Inr (fold g xs d)"
  using assms by (induction xs arbitrary: d) (simp_all add: and_then_def)

lemma length_table_set [simp]: "length (table_set d i j v) = length d"
  by (simp add: table_set_def)

lemma length_table_set_row [simp]: "length (table_set d i j v ! i') = length (d ! i')"
  by (cases "i < length d"; cases "i' = i") (simp_all add: table_set_def list_update_beyond)

lemma table_set_nth:
  assumes "i < length d" "j < length (d ! i)"
  shows "table_set d i j v ! i' ! j' = (if i' = i \<and> j' = j then v else d ! i' ! j')"
  using assms by (cases "i' = i"; cases "j' = j") (simp_all add: table_set_def)

lemma table_dims_set: "table_dims d len1 len2 \<Longrightarrow> table_dims (table_set d i j v) len1 len2"
  by (simp add: table_dims_def)

lemma levenshtein_col0 [simp]: "levenshtein c i 0 = real i"
  by (cases i) simp_all

lemma init_table_done: "rows_done c len1 len2 1 (init_table len1 len2)"
proof -
  define d1 where "d1 = table_set (replicate (len1 + 1) (replicate (len2 + 1) 0)) 0 0 (0::real)"
  define d2 where "d2 = fold (\<lambda>i d. table_set d i 0 (real i)) [1..<Suc len1] d1"
  define d3 where "d3 = fold (\<lambda>i d. table_set d 0 i (real i)) [1..<Suc len2] d2"
  have d3: "init_table len1 len2 = d3"
    by (simp add: init_table_def d1_def d2_def d3_def Let_def)
  let ?P = "\<lambda>i d. table_dims d len1 len2 \<and> (\<forall>i'<i. d ! i' ! 0 = real i')"
  have "table_dims (replicate (Suc len1) (replicate (Suc len2) (0::real))) len1 len2"
    unfolding table_dims_def by (simp del: replicate.simps add: le_imp_less_Suc)
  then have dims1: "table_dims d1 len1 len2"
    unfolding d1_def by (simp add: table_dims_set)
  have "d1 ! 0 ! 0 = 0"
    unfolding d1_def by (simp add: table_set_nth)
  with dims1 have "?P 1 d1"
    by simp
  then have "?P (Suc len1) d2"
    unfolding d2_def
  proof (rule fold_upt_invariant[where P = ?P, rotated])
    fix i d assume a: "1 \<le> i" "i < Suc len1" "?P i d"
    then have b: "i < length d" "0 < length (d ! i)"
      by (simp_all add: table_dims_def)
    have nth: "\<And>i' j'. table_set d i 0 (real i) ! i' ! j'
        = (if i' = i \<and> j' = 0 then real i else d ! i' ! j')"
      by (rule table_set_nth[OF b])
    show "?P (Suc i) (table_set d i 0 (real i))"
      using a by (simp add: nth table_dims_set less_Suc_eq)
  qed simp
  then have dims2: "table_dims d2 len1 len2" and col: "\<forall>i\<le>len1. d2 ! i ! 0 = real i"
    by (simp_all add: less_Suc_eq_le)
  let ?Q = "\<lambda>j d. table_dims d len1 len2 \<and> (\<forall>i\<le>len1. d ! i ! 0 = real i)
               \<and> (\<forall>j'<j. d ! 0 ! j' = real j')"
  have "?Q 1 d2"
    using dims2 col by simp
  then have "?Q (Suc len2) d3"
    unfolding d3_def
  proof (rule fold_upt_invariant[where P = ?Q, rotated])
    fix j d assume a: "1 \<le> j" "j < Suc len2" "?Q j d"
    then have b: "0 < length d" "j < length (d ! 0)"
      by (simp_all add: table_dims_def)
    have nth: "\<And>i' j'. table_set d 0 j (real j) ! i' ! j'
        = (if i' = 0 \<and> j' = j then real j else d ! i' ! j')"
      by (rule table_set_nth[OF b])
    show "?Q (Suc j) (table_set d 0 j (real j))"
      using a by (simp add: nth table_dims_set less_Suc_eq)
  qed simp
  then show ?thesis
    unfolding d3 by (simp add: rows_done_def less_Suc_eq_le)
qed

lemma cell_value_done:
  assumes "cells_done c len1 len2 k l d" "1 \<le> k" "k \<le> len1" "1 \<le> l" "l \<le> len2"
  shows "cells_done c len1 len2 k (Suc l) (cell_value c k l d)"
proof -
  from assms(1) have dims: "table_dims d len1 len2"
    and col: "\<forall>i\<le>len1. d ! i ! 0 = real i"
    and rows: "\<forall>i<k. \<forall>j\<le>len2. d ! i ! j = levenshtein c i j"
    and cells: "\<forall>j<l. d ! k ! j = levenshtein c k j"
    by (simp_all add: cells_done_def rows_done_def)
  obtain k' l' where k': "k = Suc k'" and l': "l = Suc l'"
    using assms(2,4) by (metis Suc_le_D One_nat_def)
  have kl: "k < length d" "l < length (d ! k)"
    using dims assms(3,5) by (simp_all add: table_dims_def)
  have new: "min (d ! (k - 1) ! l + 1) (min (d ! k ! (l - 1) + 1) (d ! (k - 1) ! (l - 1) + c k l))
      = levenshtein c k l"
    using rows cells assms(3,5) by (simp add: k' l')
  have nth: "\<And>i j. cell_value c k l d ! i ! j = (if i = k \<and> j = l then levenshtein c k l else d ! i ! j)"
    unfolding cell_value_def new by (rule table_set_nth[OF kl])
  have "table_dims (cell_value c k l d) len1 len2"
    unfolding cell_value_def by (rule table_dims_set[OF dims])
  moreover have "\<forall>i\<le>len1. cell_value c k l d ! i ! 0 = real i"
    using col assms(4) by (simp add: nth)
  moreover have "\<forall>i<k. \<forall>j\<le>len2. cell_value c k l d ! i ! j = levenshtein c i j"
    using rows by (simp add: nth)
  moreover have "\<forall>j<Suc l. cell_value c k l d ! k ! j = levenshtein c k j"
    using cells by (simp add: nth less_Suc_eq)
  ultimately show ?thesis
    by (simp add: cells_done_def rows_done_def)
qed

lemma row_done:
  assumes "rows_done c len1 len2 k d" "1 \<le> k" "k \<le> len1"
  shows "rows_done c len1 len2 (Suc k) (fold (cell_value c k) [1..<Suc len2] d)"
proof -
  have "cells_done c len1 len2 k 1 d"
    using assms by (simp add: cells_done_def rows_done_def)
  then have "cells_done c len1 len2 k (Suc len2) (fold (cell_value c k) [1..<Suc len2] d)"
  proof (rule fold_upt_invariant[where P = "cells_done c len1 len2 k", rotated])
    fix l d assume "1 \<le> l" "l < Suc len2" "cells_done c len1 len2 k l d"
    then show "cells_done c len1 len2 k (Suc l) (cell_value c k l d)"
      using assms(2,3) by (intro cell_value_done) simp_all
  qed simp
  then show ?thesis
    unfolding cells_done_def rows_done_def
    by (metis le_imp_less_Suc less_antisym)
qed

lemma table_done:
  "rows_done c len1 len2 (Suc len1)
     (fold (\<lambda>i. fold (cell_value c i) [1..<Suc len2]) [1..<Suc len1] (init_table len1 len2))"
proof (rule fold_upt_invariant[where P = "rows_done c len1 len2", rotated])
  show "rows_done c len1 len2 1 (init_table len1 len2)" by (rule init_table_done)
next
  fix k d assume "1 \<le> k" "k < Suc len1" "rows_done c len1 len2 k d"
  then show "rows_done c len1 len2 (Suc k) (fold (cell_value c k) [1..<Suc len2] d)"
    by (intro row_done) simp_all
qed simp

lemma split_from_spaces: "list_all is_space s \<Longrightarrow> split_from [] s = []"
  by (induction s) simp_all

lemma softWER_empty_ref:
  assumes "split ref = []"
  shows "softWER m hyp ref policy = Inl DivisionByZero"
proof -
  have row: "\<And>i d. wer_row m policy (split hyp) [] i d = Inr d"
    by (simp add: wer_row_def)
  have "fold (\<lambda>i r. and_then r (wer_row m policy (split hyp) [] i)) [1..<Suc (length (split hyp))]
          (Inr (init_table (length (split hyp)) 0))
        = Inr (fold (\<lambda>i d. d) [1..<Suc (length (split hyp))] (init_table (length (split hyp)) 0))"
    by (rule fold_and_then) (rule row)
  then show ?thesis
    using assms by (simp add: softWER_def Let_def and_then_def)
qed

lemma softWER_table:
  assumes "wf_model m"
  shows "softWER m hyp ref policy =
     (if split ref = [] then Inl DivisionByZero
      else Inr (levenshtein (sub_cost m policy (split hyp) (split ref))
                  (length (split hyp)) (length (split ref))
                / real (length (split ref))))"
proof -
  define s1 where "s1 = split hyp"
  define s2 where "s2 = split ref"
  define c where "c = sub_cost m policy s1 s2"
  have cell: "\<And>i j d. wer_cell m policy s1 s2 i j d = Inr (cell_value c i j d)"
    by (simp add: wer_cell_def cell_value_def wf_distance(1)[OF assms(1)] and_then_def c_def
        sub_cost_def)
  have row: "\<And>i d. wer_row m policy s1 s2 i d = Inr (fold (cell_value c i) [1..<Suc (length s2)] d)"
    unfolding wer_row_def by (rule fold_and_then) (rule cell)
  have "fold (\<lambda>i r. and_then r (wer_row m policy s1 s2 i)) [1..<Suc (length s1)]
          (Inr (init_table (length s1) (length s2)))
        = Inr (fold (\<lambda>i. fold (cell_value c i) [1..<Suc (length s2)]) [1..<Suc (length s1)]
                 (init_table (length s1) (length s2)))"
    (is "_ = Inr ?d")
    by (rule fold_and_then) (rule row)
  moreover have "?d ! length s1 ! length s2 = levenshtein c (length s1) (length s2)"
    using table_done[of c "length s1" "length s2"] by (simp add: rows_done_def)
  ultimately show ?thesis
    by (simp add: softWER_def Let_def and_then_def s1_def s2_def c_def)
qed

lemma levenshtein_nonneg: "(\<forall>i j. 0 \<le> c i j) \<Longrightarrow> 0 \<le> levenshtein c i j"
proof (induction c i j rule: levenshtein.induct)
  case (3 c i j)
  then show ?case by (simp add: min_def)
qed simp_all

lemma levenshtein_diagonal:
  assumes "\<forall>i j. 0 \<le> c i j" and "\<forall>i. 1 \<le> i \<and> i \<le> n \<longrightarrow> c i i = 0"
  shows "levenshtein c n n = 0"
  using assms(2)
proof (induction n)
  case 0
  then show ?case by simp
next
  case (Suc n)
  then have "levenshtein c n n = 0" and "c (Suc n) (Suc n) = 0" by simp_all
  moreover have "0 \<le> levenshtein c n (Suc n)" "0 \<le> levenshtein c (Suc n) n"
    using assms(1) by (simp_all add: levenshtein_nonneg)
  ultimately show ?case by (simp add: min_def)
qed

lemma levenshtein_step:
  assumes "levenshtein c i (Suc j) = up" "levenshtein c (Suc i) j = left" "levenshtein c i j = diag"
  shows "levenshtein c (Suc i) (Suc j) = min (up + 1) (min (left + 1) (diag + c (Suc i) (Suc j)))"
  using assms by simp

lemma levenshtein_2_3:
  assumes "\<forall>i j. 0 \<le> c i j"
    and c11: "c (Suc 0) (Suc 0) = 0" and c22: "c (Suc (Suc 0)) (Suc (Suc 0)) = 0"
  shows "levenshtein c (Suc (Suc 0)) (Suc (Suc (Suc 0))) = 1"
proof -
  have c: "\<And>i j. 0 \<le> c i j" using assms(1) by simp
  have l01: "levenshtein c 0 (Suc 0) = 1" and l02: "levenshtein c 0 (Suc (Suc 0)) = 2"
    and l03: "levenshtein c 0 (Suc (Suc (Suc 0))) = 3"
    and l10: "levenshtein c (Suc 0) 0 = 1" and l20: "levenshtein c (Suc (Suc 0)) 0 = 2"
    and l00: "levenshtein c 0 0 = 0"
    by simp_all
  have l11: "levenshtein c (Suc 0) (Suc 0) = 0"
    unfolding levenshtein_step[OF l01 l10 l00] by (simp add: c11)
  have l12: "levenshtein c (Suc 0) (Suc (Suc 0)) = 1"
    unfolding levenshtein_step[OF l02 l11 l01] using c[of "Suc 0" "Suc (Suc 0)"] by (simp add: min_def)
  have l13: "levenshtein c (Suc 0) (Suc (Suc (Suc 0))) = 2"
    unfolding levenshtein_step[OF l03 l12 l02] using c[of "Suc 0" "Suc (Suc (Suc 0))"] by (simp add: min_def)
  have l21: "levenshtein c (Suc (Suc 0)) (Suc 0) = 1"
    unfolding levenshtein_step[OF l11 l20 l10] using c[of "Suc (Suc 0)" "Suc 0"] by (simp add: min_def)
  have l22: "levenshtein c (Suc (Suc 0)) (Suc (Suc 0)) = 0"
    unfolding levenshtein_step[OF l12 l21 l11] by (simp add: c22)
  show ?thesis
    unfolding levenshtein_step[OF l13 l22 l12] using c[of "Suc (Suc 0)" "Suc (Suc (Suc 0))"]
    by (simp add: min_def)
qed

lemma wf_toy_abc: "wf_model toy_abc"
  by (simp add: wf_model_def toy_abc_def toy_config_def toy_node_def)

lemma sub_cost_nonneg: "wf_model m \<Longrightarrow> 0 \<le> sub_cost m policy h r i j"
  by (simp add: sub_cost_def wf_distance(2))

lemma in_vocabulary:
  assumes "w \<in> dom (map_of (vocabulary m))"
  shows "distance_value m policy w w = 0"
  using assms distance_value_same_word by blast

text \<open>
  C6. On a well-formed model, \<^verbatim>\<open>softWER\<close> computes the Levenshtein recurrence with
  insertion and deletion cost 1 and substitution cost \<open>distance(h[i-1], r[j-1], policy)\<close>,
  divided by the number of reference tokens (for a reference with at least one token).
  \<^verbatim>\<open>softWER(hyp, hyp)\<close> is 0 for a non-empty \<open>hyp\<close> whose tokens are all in the
  vocabulary, and \<^verbatim>\<open>softWER("a b", "a b c")\<close> is 1/3 when the three tokens are in the
  vocabulary.
\<close>

theorem softWER_levenshtein:
  assumes "wf_model m"
  shows "(split ref \<noteq> [] \<longrightarrow>
            softWER m hyp ref policy =
              Inr (levenshtein (sub_cost m policy (split hyp) (split ref))
                     (length (split hyp)) (length (split ref))
                   / real (length (split ref))))
       \<and> (split hyp \<noteq> [] \<and> set (split hyp) \<subseteq> dom (map_of (vocabulary m)) \<longrightarrow>
            softWER m hyp hyp policy = Inr 0)
       \<and> ({''a'', ''b'', ''c''} \<subseteq> dom (map_of (vocabulary m)) \<longrightarrow>
            softWER m ''a b'' ''a b c'' policy = Inr (1 / 3))"
proof (intro conjI impI)
  assume "split ref \<noteq> []"
  then show "softWER m hyp ref policy =
      Inr (levenshtein (sub_cost m policy (split hyp) (split ref))
             (length (split hyp)) (length (split ref)) / real (length (split ref)))"
    by (simp add: softWER_table[OF assms])
next
  assume h: "split hyp \<noteq> [] \<and> set (split hyp) \<subseteq> dom (map_of (vocabulary m))"
  let ?c = "sub_cost m policy (split hyp) (split hyp)"
  have "\<forall>i. 1 \<le> i \<and> i \<le> length (split hyp) \<longrightarrow> ?c i i = 0"
  proof (intro allI impI)
    fix i assume "1 \<le> i \<and> i \<le> length (split hyp)"
    then have "i - 1 < length (split hyp)" by linarith
    then have "split hyp ! (i - 1) \<in> set (split hyp)" by (rule nth_mem)
    with h have "split hyp ! (i - 1) \<in> dom (map_of (vocabulary m))" by blast
    then show "?c i i = 0" by (simp add: sub_cost_def in_vocabulary)
  qed
  moreover have "\<forall>i j. 0 \<le> ?c i j"
    by (simp add: sub_cost_nonneg[OF assms])
  ultimately have "levenshtein ?c (length (split hyp)) (length (split hyp)) = 0"
    by (intro levenshtein_diagonal)
  with h show "softWER m hyp hyp policy = Inr 0"
    by (simp add: softWER_table[OF assms])
next
  assume v: "{''a'', ''b'', ''c''} \<subseteq> dom (map_of (vocabulary m))"
  have s1: "split ''a b'' = [''a'', ''b'']" and s2: "split ''a b c'' = [''a'', ''b'', ''c'']"
    by (simp_all add: split_def is_space_def)
  let ?c = "sub_cost m policy [''a'', ''b''] [''a'', ''b'', ''c'']"
  have "?c (Suc 0) (Suc 0) = 0" "?c (Suc (Suc 0)) (Suc (Suc 0)) = 0"
    using v by (simp_all add: sub_cost_def in_vocabulary)
  moreover have "\<forall>i j. 0 \<le> ?c i j"
    by (simp add: sub_cost_nonneg[OF assms])
  ultimately have "levenshtein ?c (Suc (Suc 0)) (Suc (Suc (Suc 0))) = 1"
    by (intro levenshtein_2_3)
  then show "softWER m ''a b'' ''a b c'' policy = Inr (1 / 3)"
    by (simp add: softWER_table[OF assms] s1 s2 del: levenshtein.simps)
qed

theorem softWER_levenshtein_witness:
  "wf_model toy_abc
   \<and> split ''a b c'' \<noteq> []
   \<and> split ''a b'' \<noteq> [] \<and> set (split ''a b'') \<subseteq> dom (map_of (vocabulary toy_abc))
   \<and> {''a'', ''b'', ''c''} \<subseteq> dom (map_of (vocabulary toy_abc))
   \<and> softWER toy_abc ''a b'' ''a b'' 0 = Inr 0
   \<and> softWER toy_abc ''a b'' ''a b c'' 0 = Inr (1 / 3)"
proof -
  have s1: "split ''a b'' = [''a'', ''b'']" and s2: "split ''a b c'' = [''a'', ''b'', ''c'']"
    by (simp_all add: split_def is_space_def)
  have d: "dom (map_of (vocabulary toy_abc)) = {''a'', ''b'', ''c''}"
    by (auto simp: toy_abc_def)
  have h1: "split ''a b'' \<noteq> [] \<and> set (split ''a b'') \<subseteq> dom (map_of (vocabulary toy_abc))"
    by (simp add: s1 d)
  have h2: "{''a'', ''b'', ''c''} \<subseteq> dom (map_of (vocabulary toy_abc))"
    by (simp add: d)
  have h3: "split ''a b c'' \<noteq> []" by (simp add: s2)
  from softWER_levenshtein[OF wf_toy_abc, of "''a b c''" "''a b''" 0] h1 h2
  have "softWER toy_abc ''a b'' ''a b'' 0 = Inr 0"
    and "softWER toy_abc ''a b'' ''a b c'' 0 = Inr (1 / 3)"
    by blast+
  with wf_toy_abc h1 h2 h3 show ?thesis by blast
qed

text \<open>
  C10. When the reference is empty or consists of whitespace only, it has no token, and
  \<^verbatim>\<open>softWER\<close> ends in the division of \<open>d[len1][0]\<close> by the length 0, whatever the
  hypothesis and the model: no guard comes before the division.
\<close>

theorem softWER_empty_reference:
  assumes "list_all is_space ref"
  shows "split ref = [] \<and> softWER m hyp ref policy = Inl DivisionByZero"
proof -
  have "split ref = []"
    using assms by (simp add: split_def split_from_spaces)
  then show ?thesis
    by (simp add: softWER_empty_ref)
qed

theorem softWER_empty_reference_witness:
  "list_all is_space ''  '' \<and> split ''  '' = []
   \<and> softWER toy_model ''x z'' ''  '' 0 = Inl DivisionByZero"
proof -
  have h: "list_all is_space ''  ''" by (simp add: is_space_def)
  from softWER_empty_reference[OF h, of toy_model "''x z''" 0] h show ?thesis by blast
qed

section \<open>Properties of the bilingual layer\<close>

lemma dictionaryInduction_words_acc:
  "dictionaryInduction_words src trg acc = acc @ dictionaryInduction_words src trg []"
proof (induction src arbitrary: acc)
  case Nil
  then show ?case by simp
next
  case (Cons s src)
  show ?case
  proof (cases "best_target (snd s) trg None 0")
    case None
    then show ?thesis using Cons.IH[of acc] by simp
  next
    case (Some t)
    then show ?thesis
      using Cons.IH[of "acc @ [(fst s, fst t)]"] Cons.IH[of "[(fst s, fst t)]"] by simp
  qed
qed

lemma dictionaryInduction_words_append:
  "dictionaryInduction_words (xs @ ys) trg acc
     = dictionaryInduction_words ys trg (dictionaryInduction_words xs trg acc)"
  by (induction xs arbitrary: acc) (simp_all split: option.splits)

lemma dictionaryInduction_words_concat:
  "concat (map (\<lambda>s. dictionaryInduction_words s trg []) splits)
     = dictionaryInduction_words (concat splits) trg []"
proof (induction splits)
  case Nil
  then show ?case by simp
next
  case (Cons s splits)
  have "dictionaryInduction_words (s @ concat splits) trg []
      = dictionaryInduction_words s trg [] @ dictionaryInduction_words (concat splits) trg []"
    using dictionaryInduction_words_acc[of "concat splits" trg "dictionaryInduction_words s trg []"]
    by (simp add: dictionaryInduction_words_append)
  with Cons show ?case by simp
qed

lemma thread_split_prefix:
  assumes "k < n"
  shows "concat (map (thread_split xs n) [0..<k]) = take (k * (length xs div n)) xs"
  using assms
proof (induction k)
  case 0
  then show ?case by simp
next
  case (Suc k)
  then have k: "k < n" "k \<noteq> n - 1" by simp_all
  have "thread_split xs n k = take (length xs div n) (drop (k * (length xs div n)) xs)"
    using k(2) by (simp add: thread_split_def Let_def)
  moreover have "take (Suc k * (length xs div n)) xs
      = take (k * (length xs div n)) xs
        @ take (length xs div n) (drop (k * (length xs div n)) xs)"
    using take_add[of "k * (length xs div n)" "length xs div n" xs] by (simp add: add.commute)
  ultimately show ?case
    using Suc.IH[OF k(1)] by simp
qed

lemma thread_split_concat:
  assumes "0 < n"
  shows "concat (map (thread_split xs n) [0..<n]) = xs"
proof -
  obtain k where n: "n = Suc k" using assms by (cases n) simp_all
  have "k * (length xs div n) \<le> n * (length xs div n)"
    by (simp add: n)
  also have "\<dots> \<le> length xs"
    by (rule times_div_less_eq_dividend)
  finally have "k * (length xs div n) \<le> length xs" .
  then have last: "thread_split xs n k = drop (k * (length xs div n)) xs"
    by (simp add: thread_split_def Let_def n)
  have "concat (map (thread_split xs n) [0..<k]) = take (k * (length xs div n)) xs"
    by (rule thread_split_prefix) (simp add: n)
  with last show ?thesis by (simp add: n)
qed

text \<open>
  C9. With more than one thread, \<^verbatim>\<open>dictionaryInduction\<close> returns exactly what it returns
  with one thread: the same pairs in the same order (and the same failure, if the
  normalisation fails).
\<close>

theorem dictionaryInduction_threads:
  assumes "threads (bi_config bm) > 1"
  shows "dictionaryInduction bm src_vocab trg_vocab policy
    = dictionaryInduction (bm\<lparr>bi_config := (bi_config bm)\<lparr>threads := 1\<rparr>\<rparr>) src_vocab trg_vocab policy"
proof -
  have "0 < nat (threads (bi_config bm))" using assms by simp
  then have "\<And>src_words trg_words.
      concat (map (\<lambda>s. dictionaryInduction_words s trg_words [])
               (map (thread_split src_words (nat (threads (bi_config bm))))
                  [0..<nat (threads (bi_config bm))]))
      = dictionaryInduction_words src_words trg_words []"
    by (simp only: dictionaryInduction_words_concat thread_split_concat)
  with assms show ?thesis
    by (simp add: dictionaryInduction_def Let_def)
qed

lemma toy_unit_words:
  "unit_words toy_model 0 [''x'', ''z''] [] = Inr [(''x'', [1, 0]), (''z'', [0, 1])]"
  by (simp add: toy_model_def toy_node_def toy_config_def wordVec_index_def row_def and_then_def
      norm2_def dot_def vdiv_def)

theorem dictionaryInduction_threads_witness:
  "threads (bi_config toy_bilingual) > 1
   \<and> dictionaryInduction toy_bilingual [''x'', ''z''] [''x'', ''z''] 0
       = Inr [(''x'', ''x''), (''z'', ''z'')]
   \<and> dictionaryInduction (toy_bilingual\<lparr>bi_config := (bi_config toy_bilingual)\<lparr>threads := 1\<rparr>\<rparr>)
         [''x'', ''z''] [''x'', ''z''] 0
       = Inr [(''x'', ''x''), (''z'', ''z'')]"
proof -
  have t: "threads (bi_config toy_bilingual) > 1"
    by (simp add: toy_bilingual_def toy_config_def)
  have one: "dictionaryInduction (toy_bilingual\<lparr>bi_config := (bi_config toy_bilingual)\<lparr>threads := 1\<rparr>\<rparr>)
         [''x'', ''z''] [''x'', ''z''] 0 = Inr [(''x'', ''x''), (''z'', ''z'')]"
    by (simp add: dictionaryInduction_def toy_bilingual_def toy_unit_words and_then_def dot_def
        del: unit_words.simps)
  from dictionaryInduction_threads[OF t, of "[''x'', ''z'']" "[''x'', ''z'']" 0] one t
  show ?thesis by simp
qed

section \<open>Properties of the training run\<close>

subsection \<open>The floor of the learning rate\<close>

lemma decayed_alpha_bounds:
  "learning_rate cfg * 0.0001 \<le> decayed_alpha cfg training_words p"
  "learning_rate cfg * (1 - real_of_int p / real_of_int (iterations cfg * training_words))
     \<le> decayed_alpha cfg training_words p"
  by (simp_all add: decayed_alpha_def Let_def)

text \<open>
  The clamp keeps every learning rate at or above \<open>starting_alpha * 0.0001\<close> in every
  state that a run reaches, whatever the interleaving.
\<close>

lemma set_update_worker:
  assumes "\<forall>w\<in>set ws. P w" "P v"
  shows "\<forall>w\<in>set (ws[i := v]). P w"
  using assms set_update_subset_insert[of ws i v] by auto

lemma trainChunk_step_alpha_floor:
  assumes "trainChunk_step cfg training_words m s s'"
    and "\<forall>w\<in>set (workers s). learning_rate cfg * 0.0001 \<le> alpha w"
  shows "\<forall>w\<in>set (workers s'). learning_rate cfg * 0.0001 \<le> alpha w"
  using assms(1)
proof (cases rule: trainChunk_step.cases)
  case (sentence chunk_id sent)
  have old: "learning_rate cfg * 0.0001 \<le> alpha (workers s ! chunk_id)"
    using assms(2) sentence(1) by simp
  define wc where "wc = word_count (workers s ! chunk_id) + trainSentence_words m sent"
  show ?thesis
  proof (cases "wc \<ge> 10000")
    case True
    with sentence(3) have s': "workers s' = (workers s)[chunk_id := (workers s ! chunk_id)
         \<lparr>alpha := decayed_alpha cfg training_words (words_processed s + wc), word_count := 0\<rparr>]"
      by (auto simp: trainChunk_sentence_def Let_def wc_def split: if_splits)
    have eq: "alpha ((workers s ! chunk_id)
         \<lparr>alpha := decayed_alpha cfg training_words (words_processed s + wc), word_count := 0\<rparr>)
        = decayed_alpha cfg training_words (words_processed s + wc)"
      by simp
    have new: "learning_rate cfg * 0.0001 \<le> alpha ((workers s ! chunk_id)
         \<lparr>alpha := decayed_alpha cfg training_words (words_processed s + wc), word_count := 0\<rparr>)"
      unfolding eq by (rule decayed_alpha_bounds(1))
    show ?thesis
      unfolding s'
      by (rule set_update_worker[where P="\<lambda>w. learning_rate cfg * 0.0001 \<le> alpha w",
            OF assms(2) new])
  next
    case False
    with sentence(3) have s': "workers s' = (workers s)[chunk_id := (workers s ! chunk_id)
         \<lparr>word_count := wc\<rparr>]"
      by (auto simp: trainChunk_sentence_def Let_def wc_def split: if_splits)
    have new: "learning_rate cfg * 0.0001 \<le> alpha ((workers s ! chunk_id)\<lparr>word_count := wc\<rparr>)"
      using old by simp
    show ?thesis
      unfolding s'
      by (rule set_update_worker[where P="\<lambda>w. learning_rate cfg * 0.0001 \<le> alpha w",
            OF assms(2) new])
  qed
next
  case (epoch_load chunk_id)
  have old: "learning_rate cfg * 0.0001 \<le> alpha (workers s ! chunk_id)"
    using assms(2) epoch_load(2) by simp
  have new: "learning_rate cfg * 0.0001
      \<le> alpha ((workers s ! chunk_id)\<lparr>loaded := Some (words_processed s)\<rparr>)"
    using old by simp
  have w: "workers s' = (workers s)[chunk_id :=
      (workers s ! chunk_id)\<lparr>loaded := Some (words_processed s)\<rparr>]"
    by (simp add: epoch_load(1) trainChunk_epoch_load_def Let_def)
  show ?thesis
    unfolding w
    by (rule set_update_worker[where P="\<lambda>w. learning_rate cfg * 0.0001 \<le> alpha w",
          OF assms(2) new])
next
  case (epoch_store chunk_id v)
  have old: "learning_rate cfg * 0.0001 \<le> alpha (workers s ! chunk_id)"
    using assms(2) epoch_store(2) by simp
  have new: "learning_rate cfg * 0.0001
      \<le> alpha ((workers s ! chunk_id)\<lparr>word_count := 0, loaded := None\<rparr>)"
    using old by simp
  have w: "workers s' = (workers s)[chunk_id :=
      (workers s ! chunk_id)\<lparr>word_count := 0, loaded := None\<rparr>]"
    by (simp add: epoch_store(1) trainChunk_epoch_store_def Let_def)
  show ?thesis
    unfolding w
    by (rule set_update_worker[where P="\<lambda>w. learning_rate cfg * 0.0001 \<le> alpha w",
          OF assms(2) new])
qed

lemma reachable_alpha_floor:
  assumes "reachable cfg training_words m s" and "0 \<le> learning_rate cfg"
  shows "\<forall>w\<in>set (workers s). learning_rate cfg * 0.0001 \<le> alpha w"
  using assms(1)
proof (induction rule: reachable.induct)
  case start
  have "learning_rate cfg * 0.0001 \<le> learning_rate cfg"
    using assms(2) by (simp add: mult_left_le)
  then show ?case by (simp add: train_start_def)
next
  case (step s s')
  from step.hyps(2) step.IH show ?case by (rule trainChunk_step_alpha_floor)
qed

subsection \<open>A run that loses an update\<close>

lemma split_many: "split (concat (replicate n ''x '')) = replicate n ''x''"
  by (induction n) (simp_all add: split_def is_space_def)

lemma trainSentence_words_race_line: "trainSentence_words race_model race_line = 10000"
  by (simp add: trainSentence_words_def race_line_def split_many race_model_def toy_model_def)

lemma race_start:
  "train_start race_config = \<lparr>words_processed = 0,
     workers = [\<lparr>alpha = 0.05, word_count = 0, loaded = None\<rparr>,
                \<lparr>alpha = 0.05, word_count = 0, loaded = None\<rparr>]\<rparr>"
  by (simp add: train_start_def race_config_def toy_config_def eval_nat_numeral)

lemma race_config_simps:
  "learning_rate race_config = 0.05" "iterations race_config = 2"
  by (simp_all add: race_config_def toy_config_def)

lemma race_step1:
  "trainChunk_sentence race_config 40000 race_model race_line 0 (train_start race_config)
     = Inr race_s1"
  by (simp add: trainChunk_sentence_def trainSentence_words_race_line race_start
      race_config_simps decayed_alpha_def race_s1_def)

lemma race_step2:
  "trainChunk_sentence race_config 40000 race_model race_line 0 race_s1 = Inr race_s2"
  by (simp add: trainChunk_sentence_def trainSentence_words_race_line race_config_simps
      decayed_alpha_def race_s1_def race_s2_def)

lemma race_step3: "trainChunk_epoch_load 0 race_s2 = race_s3"
  by (simp add: trainChunk_epoch_load_def race_s2_def race_s3_def)

lemma race_step4:
  "trainChunk_sentence race_config 40000 race_model race_line 1 race_s3 = Inr race_s4"
  by (simp add: trainChunk_sentence_def trainSentence_words_race_line race_config_simps
      decayed_alpha_def race_s3_def race_s4_def)

lemma race_step5:
  "trainChunk_sentence race_config 40000 race_model race_line 1 race_s4 = Inr race_s5"
  by (simp add: trainChunk_sentence_def trainSentence_words_race_line race_config_simps
      decayed_alpha_def race_s4_def race_s5_def)

lemma race_step6: "trainChunk_epoch_store 0 20000 race_s5 = race_s6"
  by (simp add: trainChunk_epoch_store_def race_s5_def race_s6_def)

lemma race_step7: "trainChunk_epoch_load 1 race_s6 = race_s7"
  by (simp add: trainChunk_epoch_load_def race_s6_def race_s7_def)

lemma race_step8: "trainChunk_epoch_store 1 20000 race_s7 = race_s6"
  by (simp add: trainChunk_epoch_store_def race_s6_def race_s7_def)

lemma race_step9:
  "trainChunk_sentence race_config 40000 race_model race_line 1 race_s6 = Inr race_s8"
  by (simp add: trainChunk_sentence_def trainSentence_words_race_line race_config_simps
      decayed_alpha_def race_s6_def race_s8_def)

lemma race_reachable_s5: "reachable race_config 40000 race_model race_s5"
proof -
  note r0 = reachable.start[of race_config 40000 race_model]
  have "trainChunk_step race_config 40000 race_model (train_start race_config) race_s1"
    by (rule trainChunk_step.sentence[of 0, OF _ _ race_step1]) (simp_all add: race_start)
  note r1 = reachable.step[OF r0 this]
  have "trainChunk_step race_config 40000 race_model race_s1 race_s2"
    by (rule trainChunk_step.sentence[of 0, OF _ _ race_step2]) (simp_all add: race_s1_def)
  note r2 = reachable.step[OF r1 this]
  have "trainChunk_step race_config 40000 race_model race_s2 (trainChunk_epoch_load 0 race_s2)"
    by (rule trainChunk_step.epoch_load) (simp_all add: race_s2_def)
  note r3 = reachable.step[OF r2 this, unfolded race_step3]
  have "trainChunk_step race_config 40000 race_model race_s3 race_s4"
    by (rule trainChunk_step.sentence[of 1, OF _ _ race_step4]) (simp_all add: race_s3_def)
  note r4 = reachable.step[OF r3 this]
  have "trainChunk_step race_config 40000 race_model race_s4 race_s5"
    by (rule trainChunk_step.sentence[of 1, OF _ _ race_step5]) (simp_all add: race_s4_def)
  then show ?thesis by (rule reachable.step[OF r4])
qed

lemma race_store: "trainChunk_step race_config 40000 race_model race_s5 race_s6"
proof -
  have "trainChunk_step race_config 40000 race_model race_s5
          (trainChunk_epoch_store 0 20000 race_s5)"
    by (rule trainChunk_step.epoch_store) (simp_all add: race_s5_def)
  then show ?thesis by (simp only: race_step6)
qed

lemma race_flush: "trainChunk_step race_config 40000 race_model race_s6 race_s8"
  by (rule trainChunk_step.sentence[of 1, OF _ _ race_step9]) (simp_all add: race_s6_def)

text \<open>
  C7. The specification has \<^verbatim>\<open>words_processed\<close> never decrease and the learning rate
  of a worker never increase during a training run. The addition
  \<^verbatim>\<open>words_processed += word_count\<close> at the end of an epoch takes no lock, where the same
  addition in the body of the loop is made under \<^verbatim>\<open>print_mutex\<close>; with two threads the
  write of one worker undoes what the other has added since the read. In the run below
  (two threads, two iterations, four lines of 10000 words) worker 0 reads 20000, worker 1
  flushes twice and brings the counter to 40000, and the write of worker 0 puts it back
  to 20000 (\<open>race_s5\<close> to \<open>race_s6\<close>); worker 1 ends its epoch (\<open>race_s7\<close>, and
  \<open>race_s6\<close> again), and its next flush raises its learning rate from 0.025 to 0.03125
  (\<open>race_s6\<close> to \<open>race_s8\<close>).
\<close>

theorem trainChunk_lost_update:
  "trainChunk_sentence race_config 40000 race_model race_line 0 (train_start race_config)
     = Inr race_s1
   \<and> trainChunk_sentence race_config 40000 race_model race_line 0 race_s1 = Inr race_s2
   \<and> trainChunk_epoch_load 0 race_s2 = race_s3
   \<and> trainChunk_sentence race_config 40000 race_model race_line 1 race_s3 = Inr race_s4
   \<and> trainChunk_sentence race_config 40000 race_model race_line 1 race_s4 = Inr race_s5
   \<and> trainChunk_epoch_store 0 20000 race_s5 = race_s6
   \<and> trainChunk_epoch_load 1 race_s6 = race_s7
   \<and> trainChunk_epoch_store 1 20000 race_s7 = race_s6
   \<and> trainChunk_sentence race_config 40000 race_model race_line 1 race_s6 = Inr race_s8
   \<and> reachable race_config 40000 race_model race_s5
   \<and> trainChunk_step race_config 40000 race_model race_s5 race_s6
   \<and> words_processed race_s5 = 40000 \<and> words_processed race_s6 = 20000
   \<and> words_processed race_s6 < words_processed race_s5
   \<and> reachable race_config 40000 race_model race_s6
   \<and> trainChunk_step race_config 40000 race_model race_s6 race_s8
   \<and> alpha (workers race_s6 ! 1) = 0.025 \<and> alpha (workers race_s8 ! 1) = 0.03125
   \<and> alpha (workers race_s6 ! 1) < alpha (workers race_s8 ! 1)"
proof -
  have r6: "reachable race_config 40000 race_model race_s6"
    using race_reachable_s5 race_store by (rule reachable.step)
  have v: "words_processed race_s5 = 40000" "words_processed race_s6 = 20000"
    "alpha (workers race_s6 ! 1) = 0.025" "alpha (workers race_s8 ! 1) = 0.03125"
    by (simp_all add: race_s5_def race_s6_def race_s8_def)
  have lt: "words_processed race_s6 < words_processed race_s5"
    "alpha (workers race_s6 ! 1) < alpha (workers race_s8 ! 1)"
    by (simp_all add: race_s5_def race_s6_def race_s8_def)
  show ?thesis
    by (intro conjI race_step1 race_step2 race_step3 race_step4 race_step5 race_step6
        race_step7 race_step8 race_step9 race_reachable_s5 race_store r6 race_flush v lt)
qed

section \<open>Properties of the CBOW kernel\<close>

lemma and_then_simps:
  "and_then (Inr v) f = f v"
  "and_then (Inl e) f = Inl e"
  by (simp_all add: and_then_def)

lemma length_vadd: "length (vadd a b) = min (length a) (length b)"
  by (simp add: vadd_def)

lemma vadd_nth: "c < length a \<Longrightarrow> c < length b \<Longrightarrow> vadd a b ! c = a ! c + b ! c"
  by (simp add: vadd_def)

lemma vadd_map:
  assumes "length a = d" "length b = d"
  shows "vadd a b = map (\<lambda>c. a ! c + b ! c) [0..<d]"
  using assms by (auto simp: vadd_def intro!: nth_equalityI)

lemma vdiv_map: "vdiv (map f xs) k = map (\<lambda>c. f c / k) xs"
  by (simp add: vdiv_def)

lemma vdiv_nth: "c < length v \<Longrightarrow> vdiv v k ! c = v ! c / k"
  by (simp add: vdiv_def)

lemma length_vdiv: "length (vdiv v k) = length v"
  by (simp add: vdiv_def)

lemma length_vscale: "length (vscale s v) = length v"
  by (simp add: vscale_def)

lemma length_zero_vec: "length (zero_vec d) = d"
  by (simp add: zero_vec_def)

lemma zero_vec_nth: "c < d \<Longrightarrow> zero_vec d ! c = 0"
  by (simp add: zero_vec_def)

lemma cbow_window_range:
  assumes "pos \<in> set (cbow_window n word_pos k)"
  shows "0 \<le> pos" "pos < int n"
  using assms by (auto simp: cbow_window_def)

subsection \<open>The first loop adds up the context rows\<close>

lemma cbow_sum_value:
  assumes "\<forall>pos\<in>set window. 0 \<le> index (nodes ! nat pos)
              \<and> index (nodes ! nat pos) < int (length (input_weights m))"
    and "\<forall>r\<in>set (input_weights m). length r = d"
    and "length h = d"
  shows "cbow_sum m nodes window h =
     Inr (map (\<lambda>c. h ! c + (\<Sum>pos\<leftarrow>window. input_weights m ! nat (index (nodes ! nat pos)) ! c))
            [0..<d])"
  using assms
proof (induction window arbitrary: h)
  case Nil
  then show ?case by (auto intro!: nth_equalityI)
next
  case (Cons pos rest)
  define r where "r = input_weights m ! nat (index (nodes ! nat pos))"
  have ix: "0 \<le> index (nodes ! nat pos)" "index (nodes ! nat pos) < int (length (input_weights m))"
    using Cons.prems(1) by simp_all
  then have "r \<in> set (input_weights m)"
    unfolding r_def by (intro nth_mem) linarith
  then have lr: "length r = d" using Cons.prems(2) by blast
  have row: "row (input_weights m) (index (nodes ! nat pos)) = Inr r"
    using ix by (simp add: row_def r_def)
  have lh: "length (vadd h r) = d"
    using lr Cons.prems(3) by (simp add: length_vadd)
  have rest: "\<forall>pos\<in>set rest. 0 \<le> index (nodes ! nat pos)
              \<and> index (nodes ! nat pos) < int (length (input_weights m))"
    using Cons.prems(1) by simp
  have "cbow_sum m nodes (pos # rest) h = cbow_sum m nodes rest (vadd h r)"
    by (simp add: row and_then_simps)
  also have "\<dots> = Inr (map (\<lambda>c. vadd h r ! c
        + (\<Sum>pos\<leftarrow>rest. input_weights m ! nat (index (nodes ! nat pos)) ! c)) [0..<d])"
    by (rule Cons.IH[OF rest Cons.prems(2) lh])
  also have "map (\<lambda>c. vadd h r ! c
        + (\<Sum>pos\<leftarrow>rest. input_weights m ! nat (index (nodes ! nat pos)) ! c)) [0..<d]
     = map (\<lambda>c. h ! c
        + (\<Sum>pos\<leftarrow>pos # rest. input_weights m ! nat (index (nodes ! nat pos)) ! c)) [0..<d]"
    using lr Cons.prems(3) by (auto simp: vadd_nth r_def)
  finally show ?case .
qed

subsection \<open>The second loop adds the same vector to every context row\<close>

lemma cbow_update_value:
  assumes "\<forall>pos\<in>set window. 0 \<le> index (nodes ! nat pos)
              \<and> index (nodes ! nat pos) < int (length (input_weights m))"
    and "\<forall>r\<in>set (input_weights m). length r = d"
    and "length delta = d"
  shows "cbow_update nodes window delta m =
     Inr (m\<lparr>input_weights :=
        map (\<lambda>i. map (\<lambda>c. input_weights m ! i ! c
                 + real (length (filter (\<lambda>pos. index (nodes ! nat pos) = int i) window)) * delta ! c)
               [0..<d])
          [0..<length (input_weights m)]\<rparr>)"
  using assms
proof (induction window arbitrary: m)
  case Nil
  have "map (\<lambda>i. map (\<lambda>c. input_weights m ! i ! c) [0..<d]) [0..<length (input_weights m)]
      = input_weights m"
    using Nil.prems(2) by (auto intro!: nth_equalityI)
  then show ?case by simp
next
  case (Cons pos rest)
  define W where "W = input_weights m"
  define i0 where "i0 = nat (index (nodes ! nat pos))"
  have ix: "0 \<le> index (nodes ! nat pos)" "index (nodes ! nat pos) < int (length W)"
    using Cons.prems(1) by (simp_all add: W_def)
  then have i0: "i0 < length W" "index (nodes ! nat pos) = int i0"
    by (simp_all add: i0_def)
  have lW: "\<And>i. i < length W \<Longrightarrow> length (W ! i) = d"
    using Cons.prems(2) by (simp add: W_def)
  define m' where "m' = m\<lparr>input_weights := W[i0 := vadd (W ! i0) delta]\<rparr>"
  have row: "row (input_weights m) (index (nodes ! nat pos)) = Inr (W ! i0)"
    using ix by (simp add: row_def W_def i0_def)
  have W': "input_weights m' = W[i0 := vadd (W ! i0) delta]"
    by (simp add: m'_def)
  have p1: "\<forall>pos\<in>set rest. 0 \<le> index (nodes ! nat pos)
              \<and> index (nodes ! nat pos) < int (length (input_weights m'))"
    using Cons.prems(1) by (simp add: W' W_def)
  have p2: "\<forall>r\<in>set (input_weights m'). length r = d"
  proof
    fix r assume "r \<in> set (input_weights m')"
    then have "r = vadd (W ! i0) delta \<or> r \<in> set W"
      unfolding W' using set_update_subset_insert[of W i0 "vadd (W ! i0) delta"] by auto
    then show "length r = d"
      using lW[OF i0(1)] Cons.prems(2,3) by (auto simp: length_vadd W_def)
  qed
  have "cbow_update nodes (pos # rest) delta m = cbow_update nodes rest delta m'"
    by (simp add: row and_then_simps m'_def W_def i0_def)
  also have "\<dots> = Inr (m'\<lparr>input_weights :=
        map (\<lambda>i. map (\<lambda>c. input_weights m' ! i ! c
                 + real (length (filter (\<lambda>pos. index (nodes ! nat pos) = int i) rest)) * delta ! c)
               [0..<d])
          [0..<length (input_weights m')]\<rparr>)"
    by (rule Cons.IH[OF p1 p2 Cons.prems(3)])
  also have "map (\<lambda>i. map (\<lambda>c. input_weights m' ! i ! c
                 + real (length (filter (\<lambda>pos. index (nodes ! nat pos) = int i) rest)) * delta ! c)
               [0..<d])
          [0..<length (input_weights m')]
     = map (\<lambda>i. map (\<lambda>c. W ! i ! c
                 + real (length (filter (\<lambda>pos. index (nodes ! nat pos) = int i) (pos # rest)))
                   * delta ! c)
               [0..<d])
          [0..<length W]"
  proof -
    have "input_weights m' ! i ! c
            + real (length (filter (\<lambda>pos. index (nodes ! nat pos) = int i) rest)) * delta ! c
        = W ! i ! c
            + real (length (filter (\<lambda>pos. index (nodes ! nat pos) = int i) (pos # rest)))
              * delta ! c"
      if "i < length W" "c < d" for i c
    proof (cases "i = i0")
      case True
      have "input_weights m' ! i ! c = W ! i0 ! c + delta ! c"
        using that lW[OF i0(1)] Cons.prems(3) True i0(1) by (simp add: W' vadd_nth)
      then show ?thesis
        using True i0(2) by (simp add: algebra_simps)
    next
      case False
      then have "input_weights m' ! i = W ! i" by (simp add: W')
      moreover have "index (nodes ! nat pos) \<noteq> int i" using False i0(2) by simp
      ultimately show ?thesis by simp
    qed
    then show ?thesis by (simp add: W')
  qed
  finally show ?case
    by (simp add: m'_def W_def)
qed

subsection \<open>The gradient updates leave the input matrix alone\<close>

lemma set_update_length:
  assumes "\<forall>r\<in>set xs. length r = d" "length v = d"
  shows "\<forall>r\<in>set (xs[i := v]). length r = d"
  using assms set_update_subset_insert[of xs i v] by auto

lemma hierarchicalUpdate_loop_facts:
  assumes "hierarchicalUpdate_loop node hidden a update js (temp, m) = Inr (temp', m')"
    and "length hidden = d" and "length temp = d"
    and "\<forall>r\<in>set (output_weights_hs m). length r = d"
  shows "length temp' = d \<and> input_weights m' = input_weights m \<and> config m' = config m
       \<and> output_weights m' = output_weights m
       \<and> (\<forall>r\<in>set (output_weights_hs m'). length r = d)"
  using assms
proof (induction js arbitrary: temp m)
  case Nil
  then show ?case by simp
next
  case (Cons j js)
  from Cons.prems(1) have j: "j < length (parents node)"
    by (simp split: if_splits)
  define pi where "pi = parents node ! j"
  from Cons.prems(1) j have r: "0 \<le> pi \<and> pi < int (length (output_weights_hs m))"
    by (simp add: Let_def pi_def row_def and_then_simps split: if_splits)
  define w where "w = output_weights_hs m ! nat pi"
  have row: "row (output_weights_hs m) pi = Inr w"
    using r by (simp add: row_def w_def)
  have "w \<in> set (output_weights_hs m)"
    unfolding w_def using r by (intro nth_mem) linarith
  then have lw: "length w = d" using Cons.prems(4) by blast
  define x where "x = dot hidden w"
  show ?case
  proof (cases "x \<le> - MAX_EXP \<or> x \<ge> MAX_EXP")
    case True
    with Cons.prems(1) j have
      "hierarchicalUpdate_loop node hidden a update js (temp, m) = Inr (temp', m')"
      by (simp add: Let_def pi_def[symmetric] row and_then_simps x_def[symmetric])
    from Cons.IH[OF this Cons.prems(2,3,4)] show ?thesis .
  next
    case False
    define err where "err = - a * (sigmoid x - real_of_int (code node ! j))"
    define temp1 where "temp1 = vadd temp (vscale err w)"
    define m1 where "m1 = (if update
        then m\<lparr>output_weights_hs := (output_weights_hs m)[nat pi := vadd w (vscale err hidden)]\<rparr>
        else m)"
    from False Cons.prems(1) j have st:
      "hierarchicalUpdate_loop node hidden a update js (temp1, m1) = Inr (temp', m')"
      by (cases update)
         (simp_all add: Let_def pi_def[symmetric] row and_then_simps x_def[symmetric]
            err_def temp1_def m1_def)
    have l1: "length temp1 = d"
      using lw Cons.prems(3) by (simp add: temp1_def length_vadd length_vscale)
    have "length (vadd w (vscale err hidden)) = d"
      using lw Cons.prems(2) by (simp add: length_vadd length_vscale)
    then have l2: "\<forall>r\<in>set (output_weights_hs m1). length r = d"
      using set_update_length[OF Cons.prems(4)] Cons.prems(4) by (simp add: m1_def)
    have same: "input_weights m1 = input_weights m" "config m1 = config m"
      "output_weights m1 = output_weights m"
      by (simp_all add: m1_def)
    from Cons.IH[OF st Cons.prems(2) l1 l2] show ?thesis
      by (simp add: same)
  qed
qed

lemma negSamplingUpdate_loop_facts:
  assumes "negSamplingUpdate_loop node hidden a update ds (temp, m, g) = Inr (temp', m', g')"
    and "length hidden = d" and "length temp = d"
    and "\<forall>r\<in>set (output_weights m). length r = d"
  shows "length temp' = d \<and> input_weights m' = input_weights m \<and> config m' = config m
       \<and> (\<forall>r\<in>set (output_weights m'). length r = d)"
  using assms
proof (induction ds arbitrary: temp m g)
  case Nil
  then show ?case by simp
next
  case (Cons dd ds)
  define choice where "choice =
       (if dd = 0 then Inr (Some (node, 1::real), g)
        else and_then (getRandomHuffmanNode m g) (\<lambda>(target, g').
               if index target = index node then Inr (None, g')
               else Inr (Some (target, 0), g')))"
  from Cons.prems(1) obtain sample g1 where c: "choice = Inr (sample, g1)"
    unfolding choice_def
    by (cases "if dd = 0 then Inr (Some (node, 1::real), g)
        else and_then (getRandomHuffmanNode m g) (\<lambda>(target, g').
               if index target = index node then Inr (None, g')
               else Inr (Some (target, 0), g'))")
       (auto simp: and_then_simps)
  show ?case
  proof (cases sample)
    case None
    with Cons.prems(1) c have
      "negSamplingUpdate_loop node hidden a update ds (temp, m, g1) = Inr (temp', m', g')"
      by (simp add: choice_def[symmetric] and_then_simps)
    from Cons.IH[OF this Cons.prems(2,3,4)] show ?thesis .
  next
    case (Some tl)
    obtain target label where tl: "tl = (target, label)" by (cases tl)
    from Cons.prems(1) c Some tl have r:
      "0 \<le> index target \<and> index target < int (length (output_weights m))"
      by (simp add: choice_def[symmetric] and_then_simps row_def split: if_splits)
    define w where "w = output_weights m ! nat (index target)"
    have row: "row (output_weights m) (index target) = Inr w"
      using r by (simp add: row_def w_def)
    have "w \<in> set (output_weights m)"
      unfolding w_def using r by (intro nth_mem) linarith
    then have lw: "length w = d" using Cons.prems(4) by blast
    define pred where "pred = (if dot hidden w \<ge> MAX_EXP then 1
        else if dot hidden w \<le> - MAX_EXP then 0 else sigmoid (dot hidden w))"
    define err where "err = a * (label - pred)"
    define temp1 where "temp1 = vadd temp (vscale err w)"
    define m1 where "m1 = (if update
        then m\<lparr>output_weights := (output_weights m)[nat (index target) := vadd w (vscale err hidden)]\<rparr>
        else m)"
    from Cons.prems(1) c Some tl have st:
      "negSamplingUpdate_loop node hidden a update ds (temp1, m1, g1) = Inr (temp', m', g')"
      by (cases update)
         (simp_all add: choice_def[symmetric] and_then_simps row Let_def
            pred_def err_def temp1_def m1_def split del: if_split)
    have l1: "length temp1 = d"
      using lw Cons.prems(3) by (simp add: temp1_def length_vadd length_vscale)
    have "length (vadd w (vscale err hidden)) = d"
      using lw Cons.prems(2) by (simp add: length_vadd length_vscale)
    then have l2: "\<forall>r\<in>set (output_weights m1). length r = d"
      using set_update_length[OF Cons.prems(4)] Cons.prems(4) by (simp add: m1_def)
    have same: "input_weights m1 = input_weights m" "config m1 = config m"
      by (simp_all add: m1_def)
    from Cons.IH[OF st Cons.prems(2) l1 l2] show ?thesis
      by (simp add: same)
  qed
qed

lemma cbow_gradient_facts:
  assumes "cbow_gradient m node hidden a update g = Inr (err, m1, g2)"
    and "wf_net m" and "length hidden = dimension (config m)"
  shows "length err = dimension (config m)" and "input_weights m1 = input_weights m"
    and "config m1 = config m"
proof -
  define d where "d = dimension (config m)"
  have wo: "\<forall>r\<in>set (output_weights m). length r = d"
    and wh: "\<forall>r\<in>set (output_weights_hs m). length r = d"
    using assms(2) by (simp_all add: wf_net_def wf_model_def list_all_iff d_def)
  have lh: "length hidden = d" using assms(3) by (simp add: d_def)
  define first where "first =
        (if hierarchical_softmax (config m)
         then and_then (hierarchicalUpdate m node hidden a update) (\<lambda>(e, m1).
                Inr (vadd (zero_vec d) e, m1))
         else Inr (zero_vec d, m))"
  have unfold: "cbow_gradient m node hidden a update g =
     and_then first (\<lambda>(err1, ma).
       if negative (config m) > 0
       then and_then (negSamplingUpdate ma node hidden a update g) (\<lambda>(e, m2, g2).
              Inr (vadd err1 e, m2, g2))
       else Inr (err1, ma, g))"
    by (simp add: cbow_gradient_def Let_def first_def d_def)
  from assms(1) obtain err1 ma where f: "first = Inr (err1, ma)"
    unfolding unfold by (cases first) (auto simp: and_then_simps)
  have fa: "length err1 = d \<and> input_weights ma = input_weights m \<and> config ma = config m
       \<and> output_weights ma = output_weights m"
  proof (cases "hierarchical_softmax (config m)")
    case True
    with f obtain e where h: "hierarchicalUpdate m node hidden a update = Inr (e, ma)"
      and e: "err1 = vadd (zero_vec d) e"
      by (cases "hierarchicalUpdate m node hidden a update")
         (auto simp: first_def and_then_simps)
    from hierarchicalUpdate_loop_facts[OF h[unfolded hierarchicalUpdate_def] lh _ wh]
    show ?thesis
      by (simp add: e length_vadd length_zero_vec d_def)
  next
    case False
    with f show ?thesis by (auto simp: first_def length_zero_vec)
  qed
  have second: "(if negative (config m) > 0
           then and_then (negSamplingUpdate ma node hidden a update g) (\<lambda>(e, m2, g2).
                  Inr (vadd err1 e, m2, g2))
           else Inr (err1, ma, g)) = Inr (err, m1, g2)"
    using assms(1) unfolding unfold f by (simp add: and_then_simps)
  have "length err = d \<and> input_weights m1 = input_weights m \<and> config m1 = config m"
  proof (cases "negative (config m) > 0")
    case True
    with second obtain e where n: "negSamplingUpdate ma node hidden a update g = Inr (e, m1, g2)"
      and e: "err = vadd err1 e"
      by (cases "negSamplingUpdate ma node hidden a update g") (auto simp: and_then_simps)
    have wo': "\<forall>r\<in>set (output_weights ma). length r = d" using wo fa by simp
    from negSamplingUpdate_loop_facts[OF n[unfolded negSamplingUpdate_def] lh _ wo']
    show ?thesis
      using fa by (simp add: e length_vadd length_zero_vec d_def)
  next
    case False
    with second fa show ?thesis by simp
  qed
  then show "length err = dimension (config m)" and "input_weights m1 = input_weights m"
    and "config m1 = config m"
    by (simp_all add: d_def)
qed

subsection \<open>The kernel\<close>

lemma cbow_hidden_value:
  assumes "\<forall>pos\<in>set window. 0 \<le> index (nodes ! nat pos)
              \<and> index (nodes ! nat pos) < int (length (input_weights m))"
    and "\<forall>r\<in>set (input_weights m). length r = dimension (config m)"
    and "case sent_vec of None \<Rightarrow> True | Some sv \<Rightarrow> length sv = dimension (config m)"
  shows "cbow_hidden m nodes window sent_vec =
     Inr (map (\<lambda>c. (\<Sum>pos\<leftarrow>window. input_weights m ! nat (index (nodes ! nat pos)) ! c)
                  + (case sent_vec of None \<Rightarrow> 0 | Some sv \<Rightarrow> sv ! c))
            [0..<dimension (config m)],
          length window + (case sent_vec of None \<Rightarrow> 0 | Some sv \<Rightarrow> 1))"
proof -
  define d where "d = dimension (config m)"
  define S where "S = (\<lambda>c. \<Sum>pos\<leftarrow>window. input_weights m ! nat (index (nodes ! nat pos)) ! c)"
  have "cbow_sum m nodes window (zero_vec d) = Inr (map (\<lambda>c. zero_vec d ! c + S c) [0..<d])"
    unfolding S_def
    by (rule cbow_sum_value[OF assms(1) assms(2)[folded d_def] length_zero_vec])
  also have "map (\<lambda>c. zero_vec d ! c + S c) [0..<d] = map S [0..<d]"
    by (simp add: zero_vec_nth)
  finally have s: "cbow_sum m nodes window (zero_vec d) = Inr (map S [0..<d])" .
  show ?thesis
  proof (cases sent_vec)
    case None
    then show ?thesis
      using s by (simp add: cbow_hidden_def and_then_simps d_def S_def)
  next
    case (Some sv)
    with assms(3) have "length sv = d" by (simp add: d_def)
    then have "vadd (map S [0..<d]) sv = map (\<lambda>c. S c + sv ! c) [0..<d]"
      by (auto simp: vadd_def intro!: nth_equalityI)
    then show ?thesis
      using s Some by (simp add: cbow_hidden_def and_then_simps d_def S_def)
  qed
qed

lemma cbow_apply_value:
  assumes "\<forall>pos\<in>set window. 0 \<le> index (nodes ! nat pos)
              \<and> index (nodes ! nat pos) < int (length (input_weights m1))"
    and "\<forall>r\<in>set (input_weights m1). length r = d"
    and "case sent_vec of None \<Rightarrow> True | Some sv \<Rightarrow> length sv = d"
    and "length err = d"
  shows "cbow_apply nodes window sent_vec (vdiv err k) update m1 =
     Inr (if update
          then m1\<lparr>input_weights :=
            map (\<lambda>i. map (\<lambda>c. input_weights m1 ! i ! c
                     + real (length (filter (\<lambda>pos. index (nodes ! nat pos) = int i) window))
                       * (err ! c / k))
                   [0..<d])
              [0..<length (input_weights m1)]\<rparr>
          else m1,
          map_option (\<lambda>sv. map (\<lambda>c. sv ! c + err ! c / k) [0..<d]) sent_vec)"
proof -
  have ld: "length (vdiv err k) = d" using assms(4) by (simp add: length_vdiv)
  have sv: "map_option (\<lambda>sv. vadd sv (vdiv err k)) sent_vec
      = map_option (\<lambda>sv. map (\<lambda>c. sv ! c + err ! c / k) [0..<d]) sent_vec"
  proof (cases sent_vec)
    case None
    then show ?thesis by simp
  next
    case (Some sv)
    with assms(3) have "length sv = d" by simp
    then have "vadd sv (vdiv err k) = map (\<lambda>c. sv ! c + err ! c / k) [0..<d]"
      using assms(4) by (auto simp: vadd_def vdiv_def intro!: nth_equalityI)
    then show ?thesis using Some by simp
  qed
  have up: "cbow_update nodes window (vdiv err k) m1 =
     Inr (m1\<lparr>input_weights :=
            map (\<lambda>i. map (\<lambda>c. input_weights m1 ! i ! c
                     + real (length (filter (\<lambda>pos. index (nodes ! nat pos) = int i) window))
                       * (err ! c / k))
                   [0..<d])
              [0..<length (input_weights m1)]\<rparr>)"
  proof -
    have "map (\<lambda>i. map (\<lambda>c. input_weights m1 ! i ! c
                     + real (length (filter (\<lambda>pos. index (nodes ! nat pos) = int i) window))
                       * vdiv err k ! c)
                   [0..<d])
              [0..<length (input_weights m1)]
        = map (\<lambda>i. map (\<lambda>c. input_weights m1 ! i ! c
                     + real (length (filter (\<lambda>pos. index (nodes ! nat pos) = int i) window))
                       * (err ! c / k))
                   [0..<d])
              [0..<length (input_weights m1)]"
      using assms(4) by (simp add: vdiv_nth)
    then show ?thesis
      using cbow_update_value[OF assms(1,2) ld] by simp
  qed
  show ?thesis
    by (cases update) (simp_all add: cbow_apply_def and_then_simps up sv)
qed

text \<open>
  C4, as amended. In the CBOW kernel, for a center word with at least one summand (a
  context word in the window, or a sentence vector): the hidden vector passed to the
  gradient updates is, component by component, the sum of the input rows of the context
  words, plus the sentence vector when there is one, divided by \<open>k\<close>; the vector added to
  the input row of each context word (once for each of its positions in the window, when
  \<open>update\<close> is set) and to the sentence vector is the error vector divided by the same
  \<open>k\<close>. When \<open>no_average\<close> is set \<open>k\<close> is 1: the hidden vector is the unscaled sum and
  the error is added as it is, not divided by the number of summands. When
  \<open>no_average\<close> is off \<open>k\<close> is the number \<open>n\<close> of summands: the hidden vector is
  the mean and the error added is divided by \<open>n\<close>.
\<close>

theorem trainWordCBOW_scaling:
  assumes "wf_net m"
    and "list_all (\<lambda>node. 0 \<le> index node \<and> index node < int (length (vocabulary m))) nodes"
    and "0 \<le> word_pos" and "word_pos < int (length nodes)"
    and "case sent_vec of None \<Rightarrow> True | Some sv \<Rightarrow> length sv = dimension (config m)"
    and "rand (window_size (config m)) g = (r, g')"
    and "window = cbow_window (length nodes) word_pos (1 + int r)"
    and "n = length window + (case sent_vec of None \<Rightarrow> 0 | Some sv \<Rightarrow> 1)" and "n \<noteq> 0"
    and "k = (if no_average (config m) then 1 else real n)"
    and "hidden =
       map (\<lambda>c. ((\<Sum>pos\<leftarrow>window. input_weights m ! nat (index (nodes ! nat pos)) ! c)
                   + (case sent_vec of None \<Rightarrow> 0 | Some sv \<Rightarrow> sv ! c)) / k)
         [0..<dimension (config m)]"
  shows "trainWordCBOW m nodes word_pos sent_vec a update g =
     and_then (cbow_gradient m (nodes ! nat word_pos) hidden a update g') (\<lambda>(err, m1, g2).
       Inr (if update
            then m1\<lparr>input_weights :=
              map (\<lambda>i. map (\<lambda>c. input_weights m ! i ! c
                       + real (length (filter (\<lambda>pos. index (nodes ! nat pos) = int i) window))
                         * (err ! c / k))
                     [0..<dimension (config m)])
                [0..<length (input_weights m)]\<rparr>
            else m1,
            map_option (\<lambda>sv. map (\<lambda>c. sv ! c + err ! c / k) [0..<dimension (config m)]) sent_vec,
            g2))"
proof -
  define d where "d = dimension (config m)"
  define S where "S = (\<lambda>c. (\<Sum>pos\<leftarrow>window. input_weights m ! nat (index (nodes ! nat pos)) ! c)
                   + (case sent_vec of None \<Rightarrow> 0 | Some sv \<Rightarrow> sv ! c))"
  have rows: "\<forall>r\<in>set (input_weights m). length r = dimension (config m)"
    and lenW: "length (input_weights m) = length (vocabulary m)"
    using assms(1) by (simp_all add: wf_net_def wf_model_def list_all_iff)
  have valid: "\<forall>pos\<in>set window. 0 \<le> index (nodes ! nat pos)
              \<and> index (nodes ! nat pos) < int (length (input_weights m))"
  proof
    fix pos assume "pos \<in> set window"
    then have "0 \<le> pos" "pos < int (length nodes)"
      unfolding assms(7) by (rule cbow_window_range)+
    then have "nodes ! nat pos \<in> set nodes" by (intro nth_mem) linarith
    with assms(2) show "0 \<le> index (nodes ! nat pos)
        \<and> index (nodes ! nat pos) < int (length (input_weights m))"
      by (simp add: list_all_iff lenW)
  qed
  have hid: "cbow_hidden m nodes window sent_vec = Inr (map S [0..<d], n)"
    using cbow_hidden_value[OF valid rows assms(5)] by (simp add: S_def d_def assms(8))
  have k: "real (if no_average (config m) then 1 else n) = k"
    by (simp add: assms(10))
  have hidden: "vdiv (map S [0..<d]) k = hidden"
    by (simp add: vdiv_map assms(11) S_def d_def)
  have lh: "length hidden = dimension (config m)"
    by (simp add: assms(11))
  have unfold: "trainWordCBOW m nodes word_pos sent_vec a update g =
     and_then (cbow_gradient m (nodes ! nat word_pos) hidden a update g') (\<lambda>(err, m1, g2).
       and_then (cbow_apply nodes window sent_vec (vdiv err k) update m1)
         (\<lambda>(m2, sent_vec'). Inr (m2, sent_vec', g2)))"
    using assms(3,4,9)
    by (simp add: trainWordCBOW_def assms(6) assms(7)[symmetric] hid and_then_simps Let_def
        k hidden del: of_nat_eq_iff)
  show ?thesis
  proof (cases "cbow_gradient m (nodes ! nat word_pos) hidden a update g'")
    case (Inl e)
    then show ?thesis by (simp add: unfold and_then_simps)
  next
    case (Inr res)
    obtain err m1 g2 where res: "res = (err, m1, g2)" by (cases res)
    note gf = cbow_gradient_facts[OF Inr[unfolded res] assms(1) lh]
    have valid1: "\<forall>pos\<in>set window. 0 \<le> index (nodes ! nat pos)
              \<and> index (nodes ! nat pos) < int (length (input_weights m1))"
      using valid by (simp add: gf(2))
    have rows1: "\<forall>r\<in>set (input_weights m1). length r = dimension (config m)"
      using rows by (simp add: gf(2))
    show ?thesis
      by (simp add: unfold Inr res and_then_simps
          cbow_apply_value[OF valid1 rows1 assms(5) gf(1)] gf(2))
  qed
qed

lemma zero_vec_2: "zero_vec 2 = [0, 0]"
  by (simp add: zero_vec_def eval_nat_numeral)

lemma cbow_window_example: "cbow_window 3 1 1 = [0, 2]"
  by (simp add: cbow_window_def upto.simps)

lemma cbow_sentence_nth:
  "cbow_sentence ! 0 = cbow_node ''a'' 0 [0] [0]"
  "cbow_sentence ! Suc 0 = cbow_node ''b'' 1 [1] [0]"
  "cbow_sentence ! 1 = cbow_node ''b'' 1 [1] [0]"
  "cbow_sentence ! 2 = cbow_node ''c'' 2 [1] [0]"
  by (simp_all add: cbow_sentence_def)

lemma wf_cbow_model: "wf_net cbow_model" "wf_net cbow_model_avg"
  by (simp_all add: wf_net_def wf_model_def cbow_model_avg_def cbow_model_def cbow_node_def
      toy_config_def)

lemma cbow_sentence_valid:
  "list_all (\<lambda>node. 0 \<le> index node \<and> index node < int (length (vocabulary cbow_model)))
     cbow_sentence"
  "list_all (\<lambda>node. 0 \<le> index node \<and> index node < int (length (vocabulary cbow_model_avg)))
     cbow_sentence"
  by (simp_all add: cbow_sentence_def cbow_node_def cbow_model_avg_def cbow_model_def)

lemma cbow_gradient_sum:
  "cbow_gradient cbow_model (cbow_node ''b'' 1 [1] [0]) [4, 2] 1 True [] =
    Inr ([1/2, -1], cbow_model\<lparr>output_weights_hs := [[3, -1], [0, 0], [0, 0]]\<rparr>, [])"
  by (simp add: cbow_gradient_def cbow_model_def hierarchicalUpdate_def cbow_node_def toy_config_def
      row_def and_then_def dot_def MAX_EXP_def sigmoid_def vadd_def vscale_def zero_vec_2)

lemma cbow_gradient_mean:
  "cbow_gradient cbow_model_avg (cbow_node ''b'' 1 [1] [0]) [4/3, 2/3] 1 True [] =
    Inr ([1/2, -1], cbow_model_avg\<lparr>output_weights_hs := [[5/3, - (5/3)], [0, 0], [0, 0]]\<rparr>, [])"
  by (simp add: cbow_gradient_def cbow_model_avg_def cbow_model_def hierarchicalUpdate_def
      cbow_node_def toy_config_def row_def and_then_def dot_def MAX_EXP_def sigmoid_def vadd_def
      vscale_def zero_vec_2)

theorem trainWordCBOW_scaling_witness:
  "wf_net cbow_model \<and> wf_net cbow_model_avg
   \<and> no_average (config cbow_model) \<and> \<not> no_average (config cbow_model_avg)
   \<and> cbow_window (length cbow_sentence) 1 (1 + int 0) = [0, 2]
   \<and> trainWordCBOW cbow_model cbow_sentence 1 (Some cbow_sent_vec) 1 True [0]
       = Inr (cbow_model\<lparr>output_weights_hs := [[3, -1], [0, 0], [0, 0]],
                          input_weights := [[3/2, -1], [0, 1], [3/2, 0]]\<rparr>,
              Some [5/2, 0], [])
   \<and> trainWordCBOW cbow_model_avg cbow_sentence 1 (Some cbow_sent_vec) 1 True [0]
       = Inr (cbow_model_avg\<lparr>output_weights_hs := [[5/3, - (5/3)], [0, 0], [0, 0]],
                              input_weights := [[7/6, - (1/3)], [0, 1], [7/6, 2/3]]\<rparr>,
              Some [13/6, 2/3], [])"
proof -
  have p: "(0::int) \<le> 1" "1 < int (length cbow_sentence)"
    by (simp_all add: cbow_sentence_def)
  have sv: "case Some cbow_sent_vec of None \<Rightarrow> True
              | Some sv \<Rightarrow> length sv = dimension (config cbow_model)"
    "case Some cbow_sent_vec of None \<Rightarrow> True
              | Some sv \<Rightarrow> length sv = dimension (config cbow_model_avg)"
    by (simp_all add: cbow_sent_vec_def cbow_model_avg_def cbow_model_def toy_config_def)
  have r: "rand (window_size (config cbow_model)) [0] = (0, [])"
    "rand (window_size (config cbow_model_avg)) [0] = (0, [])"
    by (simp_all add: rand_def cbow_model_avg_def cbow_model_def toy_config_def)
  have w: "[0, 2] = cbow_window (length cbow_sentence) 1 (1 + int 0)"
    by (simp add: cbow_window_def cbow_sentence_def upto.simps)
  have n: "3 = length [0::int, 2] + (case Some cbow_sent_vec of None \<Rightarrow> 0 | Some sv \<Rightarrow> 1)"
    "(3::nat) \<noteq> 0"
    by simp_all
  have na: "no_average (config cbow_model)" "\<not> no_average (config cbow_model_avg)"
    by (simp_all add: cbow_model_avg_def cbow_model_def toy_config_def)
  have k: "(1::real) = (if no_average (config cbow_model) then 1 else real 3)"
    "(3::real) = (if no_average (config cbow_model_avg) then 1 else real 3)"
    by (simp_all add: na)
  have h: "[4, 2] =
       map (\<lambda>c. ((\<Sum>pos\<leftarrow>[0, 2]. input_weights cbow_model ! nat (index (cbow_sentence ! nat pos)) ! c)
                   + (case Some cbow_sent_vec of None \<Rightarrow> 0 | Some sv \<Rightarrow> sv ! c)) / 1)
         [0..<dimension (config cbow_model)]"
    by (simp add: cbow_model_def cbow_sentence_def cbow_node_def cbow_sent_vec_def toy_config_def
        eval_nat_numeral)
  have h': "[4/3, 2/3] =
       map (\<lambda>c. ((\<Sum>pos\<leftarrow>[0, 2]. input_weights cbow_model_avg ! nat (index (cbow_sentence ! nat pos)) ! c)
                   + (case Some cbow_sent_vec of None \<Rightarrow> 0 | Some sv \<Rightarrow> sv ! c)) / 3)
         [0..<dimension (config cbow_model_avg)]"
    by (simp add: cbow_model_avg_def cbow_model_def cbow_sentence_def cbow_node_def
        cbow_sent_vec_def toy_config_def eval_nat_numeral)
  have g: "cbow_gradient cbow_model (cbow_sentence ! nat 1) [4, 2] 1 True [] =
      Inr ([1/2, -1], cbow_model\<lparr>output_weights_hs := [[3, -1], [0, 0], [0, 0]]\<rparr>, [])"
    "cbow_gradient cbow_model_avg (cbow_sentence ! nat 1) [4/3, 2/3] 1 True [] =
      Inr ([1/2, -1], cbow_model_avg\<lparr>output_weights_hs := [[5/3, - (5/3)], [0, 0], [0, 0]]\<rparr>, [])"
    by (simp_all add: cbow_sentence_nth cbow_gradient_sum cbow_gradient_mean)
  have a: "trainWordCBOW cbow_model cbow_sentence 1 (Some cbow_sent_vec) 1 True [0]
       = Inr (cbow_model\<lparr>output_weights_hs := [[3, -1], [0, 0], [0, 0]],
                          input_weights := [[3/2, -1], [0, 1], [3/2, 0]]\<rparr>,
              Some [5/2, 0], [])"
    unfolding trainWordCBOW_scaling[OF wf_cbow_model(1) cbow_sentence_valid(1) p sv(1) r(1) w n k(1) h]
      g(1) and_then_simps
    by (simp add: cbow_model_def cbow_sentence_def cbow_node_def cbow_sent_vec_def toy_config_def
        eval_nat_numeral)
  have b: "trainWordCBOW cbow_model_avg cbow_sentence 1 (Some cbow_sent_vec) 1 True [0]
       = Inr (cbow_model_avg\<lparr>output_weights_hs := [[5/3, - (5/3)], [0, 0], [0, 0]],
                              input_weights := [[7/6, - (1/3)], [0, 1], [7/6, 2/3]]\<rparr>,
              Some [13/6, 2/3], [])"
    unfolding trainWordCBOW_scaling[OF wf_cbow_model(2) cbow_sentence_valid(2) p sv(2) r(2) w n k(2) h']
      g(2) and_then_simps
    by (simp add: cbow_model_avg_def cbow_model_def cbow_sentence_def cbow_node_def
        cbow_sent_vec_def toy_config_def eval_nat_numeral)
  show ?thesis
    using wf_cbow_model na w[symmetric] a b by (intro conjI)
qed

lemma cbow_hidden_example: "cbow_hidden cbow_model cbow_sentence [0, 2] None = Inr ([2, 1], 2)"
  by (simp add: cbow_hidden_def cbow_model_def cbow_sentence_def cbow_node_def row_def and_then_def
      zero_vec_2 vadd_def toy_config_def)

lemma cbow_gradient_example: "cbow_gradient cbow_model (cbow_node ''b'' 1 [1] [0]) [2, 1] 1 True [] =
    Inr ([1/2, -1], cbow_model\<lparr>output_weights_hs := [[2, - (3/2)], [0, 0], [0, 0]]\<rparr>, [])"
  by (simp add: cbow_gradient_def cbow_model_def hierarchicalUpdate_def cbow_node_def toy_config_def
      row_def and_then_def dot_def MAX_EXP_def sigmoid_def vadd_def vscale_def zero_vec_2)

lemma cbow_apply_example: "cbow_apply cbow_sentence [0, 2] None [1/2, -1] True
     (cbow_model\<lparr>output_weights_hs := [[2, - (3/2)], [0, 0], [0, 0]]\<rparr>)
   = Inr (cbow_model\<lparr>output_weights_hs := [[2, - (3/2)], [0, 0], [0, 0]],
                      input_weights := [[3/2, -1], [0, 1], [3/2, 0]]\<rparr>, None)"
  by (simp add: cbow_apply_def cbow_model_def cbow_sentence_def cbow_node_def row_def and_then_def
      vadd_def)

lemma vdiv_one [simp]: "vdiv v 1 = v"
  by (simp add: vdiv_def)

text \<open>
  The statement of the specification, that the error is still divided by the number of
  summands, does not hold. With \<open>no_average\<close> set, center \<open>b\<close> and the two
  context words \<open>a\<close> and \<open>c\<close>, the hidden vector is the sum \<open>[2, 1]\<close> and the error
  vector is \<open>[1/2, -1]\<close>; the row of \<open>a\<close> goes from \<open>[1, 0]\<close> to \<open>[3/2, -1]\<close>, the
  whole error added, where a division by the two summands would give \<open>[5/4, -1/2]\<close>.
\<close>

theorem trainWordCBOW_no_average_counterexample:
  "no_average (config cbow_model)
   \<and> cbow_window (length cbow_sentence) 1 1 = [0, 2]
   \<and> cbow_hidden cbow_model cbow_sentence [0, 2] None = Inr ([2, 1], 2)
   \<and> cbow_gradient cbow_model (cbow_sentence ! 1) [2, 1] 1 True []
       = Inr ([1/2, -1], cbow_model\<lparr>output_weights_hs := [[2, - (3/2)], [0, 0], [0, 0]]\<rparr>, [])
   \<and> trainWordCBOW cbow_model cbow_sentence 1 None 1 True [0]
       = Inr (cbow_model\<lparr>output_weights_hs := [[2, - (3/2)], [0, 0], [0, 0]],
                          input_weights := [[3/2, -1], [0, 1], [3/2, 0]]\<rparr>, None, [])
   \<and> vadd (input_weights cbow_model ! 0) [1/2, -1] = [3/2, -1]
   \<and> vadd (input_weights cbow_model ! 0) (vdiv [1/2, -1] 2) = [5/4, - (1/2)]"
proof -
  have r: "rand (window_size (config cbow_model)) [0] = (0, [])"
    by (simp add: rand_def cbow_model_def toy_config_def)
  have n: "no_average (config cbow_model)" "length cbow_sentence = 3"
    by (simp_all add: cbow_model_def cbow_sentence_def)
  have s: "cbow_sentence ! Suc 0 = cbow_node ''b'' 1 [1] [0]" "cbow_sentence ! 1 = cbow_node ''b'' 1 [1] [0]"
    by (simp_all add: cbow_sentence_def)
  have t: "trainWordCBOW cbow_model cbow_sentence 1 None 1 True [0]
       = Inr (cbow_model\<lparr>output_weights_hs := [[2, - (3/2)], [0, 0], [0, 0]],
                          input_weights := [[3/2, -1], [0, 1], [3/2, 0]]\<rparr>, None, [])"
    by (simp add: trainWordCBOW_def r n s cbow_window_example cbow_hidden_example cbow_gradient_example cbow_apply_example and_then_def)
  have v: "vadd (input_weights cbow_model ! 0) [1/2, -1] = [3/2, -1]"
    "vadd (input_weights cbow_model ! 0) (vdiv [1/2, -1] 2) = [5/4, - (1/2)]"
    by (simp_all add: cbow_model_def vadd_def vdiv_def)
  show ?thesis
    using n(1) cbow_window_example cbow_hidden_example cbow_gradient_example t v by (simp add: n(2) s)
qed

section \<open>Properties of the Huffman tree\<close>

subsection \<open>The loop keeps the leaves\<close>

lemma forest_leaves_simps [simp]:
  "forest_leaves [] = {#}"
  "forest_leaves (t # heap) = mset (leaves t) + forest_leaves heap"
  "forest_leaves (xs @ ys) = forest_leaves xs + forest_leaves ys"
  by (simp_all add: forest_leaves_def)

lemma forest_leaves_sum: "forest_leaves heap = (\<Sum>t\<in>#mset heap. mset (leaves t))"
  by (induction heap) simp_all

lemma forest_leaves_mset: "mset xs = mset ys \<Longrightarrow> forest_leaves xs = forest_leaves ys"
  by (simp add: forest_leaves_sum)

lemma huffman_step_leaves:
  assumes "length heap > 1"
  shows "forest_leaves
           (take it (butlast (butlast heap))
            @ [Parent i c (last heap) (last (butlast heap))]
            @ drop it (butlast (butlast heap)))
         = forest_leaves heap"
proof -
  obtain h2 r l where heap: "heap = h2 @ [r, l]"
  proof -
    from assms obtain h1 l where h1: "heap = h1 @ [l]"
      by (metis length_0_conv less_nat_zero_code rev_exhaust)
    with assms obtain h2 r where "h1 = h2 @ [r]"
      by (cases h1 rule: rev_cases) simp_all
    with h1 show ?thesis by (intro that[of h2 r l]) simp
  qed
  have "forest_leaves (take it h2) + forest_leaves (drop it h2)
      = forest_leaves (take it h2 @ drop it h2)"
    by (rule forest_leaves_simps(3)[symmetric])
  then have "forest_leaves (take it h2) + forest_leaves (drop it h2) = forest_leaves h2"
    by (simp only: append_take_drop_id)
  then show ?thesis
    by (simp add: heap butlast_append add.commute add.left_commute)
qed

lemma huffman_loop_leaves: "forest_leaves (huffman_loop i heap) = forest_leaves heap"
proof (induction i heap rule: huffman_loop.induct)
  case (1 i heap)
  show ?case
  proof (cases "length heap > 1")
    case True
    then show ?thesis
      by (subst huffman_loop.simps)
        (simp only: if_True Let_def "1.IH"[OF True refl refl refl refl refl refl]
           huffman_step_leaves[OF True])
  next
    case False
    then show ?thesis by (subst huffman_loop.simps) simp
  qed
qed

lemma huffman_loop_length: "length (huffman_loop i heap) \<le> 1"
proof (induction i heap rule: huffman_loop.induct)
  case (1 i heap)
  show ?case
  proof (cases "length heap > 1")
    case True
    then show ?thesis
      by (subst huffman_loop.simps)
        (simp only: if_True Let_def "1.IH"[OF True refl refl refl refl refl refl])
  next
    case False
    then show ?thesis by (subst huffman_loop.simps) simp
  qed
qed

lemma leaves_nonempty: "leaves t \<noteq> []"
  by (induction t) simp_all

lemma huffman_loop_root:
  assumes "heap \<noteq> []"
  shows "\<exists>t. huffman_loop i heap = [t] \<and> mset (leaves t) = forest_leaves heap"
proof -
  have "forest_leaves heap \<noteq> {#}"
    using assms leaves_nonempty by (cases heap) simp_all
  then have "huffman_loop i heap \<noteq> []"
    using huffman_loop_leaves[of i heap] by auto
  with huffman_loop_length[of i heap] obtain t where t: "huffman_loop i heap = [t]"
    by (cases "huffman_loop i heap") simp_all
  with huffman_loop_leaves[of i heap] show ?thesis by simp
qed

lemma initial_heap_leaves: "forest_leaves (initial_heap v) = mset (map fst v)"
proof -
  have "forest_leaves (initial_heap v) = forest_leaves (map (\<lambda>(w, n). Leaf w (count n)) v)"
    unfolding initial_heap_def by (rule forest_leaves_mset) simp
  also have "\<dots> = mset (map fst v)"
    by (induction v) auto
  finally show ?thesis .
qed

lemma initial_heap_nonempty: "v \<noteq> [] \<Longrightarrow> initial_heap v \<noteq> []"
  by (metis initial_heap_def length_map length_sort length_0_conv)

subsection \<open>assignCodes\<close>

lemma paths_leaves: "map fst (paths t) = leaves t"
proof (induction t)
  case (Leaf w c)
  then show ?case by simp
next
  case (Parent i c l r)
  have "\<And>b::int. fst \<circ> (\<lambda>(w, cd, ps). (w, b # cd, i # ps)) = (fst :: string \<times> int list \<times> int list \<Rightarrow> string)"
    by (auto simp: fun_eq_iff)
  with Parent show ?case by simp
qed

lemma paths_length: "(w, cd, ps) \<in> set (paths t) \<Longrightarrow> length cd = length ps"
  by (induction t arbitrary: cd ps) auto

lemma set_codes_keys [simp]: "map fst (set_codes w cd ps v) = map fst v"
  by (induction v) (auto simp: set_codes_def)

lemma map_of_set_codes:
  "map_of (set_codes w cd ps v) k =
     (if k = w then map_option (\<lambda>n. n\<lparr>code := cd, parents := ps\<rparr>) (map_of v k)
      else map_of v k)"
  by (induction v) (auto simp: set_codes_def)

lemma assignCodes_keys [simp]: "map fst (assignCodes t cd ps v) = map fst v"
  by (induction t arbitrary: cd ps v) (simp_all add: Let_def)

lemma assignCodes_other:
  "w \<notin> set (leaves t) \<Longrightarrow> map_of (assignCodes t cd ps v) w = map_of v w"
  by (induction t arbitrary: cd ps v) (simp_all add: Let_def map_of_set_codes)

lemma assignCodes_path:
  assumes "distinct (leaves t)" "(w, cd, ps) \<in> set (paths t)"
  shows "map_of (assignCodes t code0 parents0 v) w
     = map_option (\<lambda>n. n\<lparr>code := code0 @ cd, parents := parents0 @ ps\<rparr>) (map_of v w)"
  using assms
proof (induction t arbitrary: cd ps code0 parents0 v)
  case (Leaf w' c)
  then show ?case by (simp add: map_of_set_codes)
next
  case (Parent i c l r)
  from Parent.prems(1) have dl: "distinct (leaves l)" and dr: "distinct (leaves r)"
    and disj: "set (leaves l) \<inter> set (leaves r) = {}"
    by simp_all
  from Parent.prems(2) consider
      (left) cd' ps' where "cd = 0 # cd'" "ps = i # ps'" "(w, cd', ps') \<in> set (paths l)"
    | (right) cd' ps' where "cd = 1 # cd'" "ps = i # ps'" "(w, cd', ps') \<in> set (paths r)"
    by auto
  then show ?case
  proof cases
    case left
    then have "w \<in> set (leaves l)"
      by (metis paths_leaves fst_conv image_eqI set_map)
    with disj have "w \<notin> set (leaves r)" by blast
    then show ?thesis
      using Parent.IH(1)[OF dl left(3)] left(1,2)
      by (simp add: Let_def assignCodes_other)
  next
    case right
    then have "w \<in> set (leaves r)"
      by (metis paths_leaves fst_conv image_eqI set_map)
    with disj have "w \<notin> set (leaves l)" by blast
    then show ?thesis
      using Parent.IH(2)[OF dr right(3)] right(1,2)
      by (simp add: Let_def assignCodes_other)
  qed
qed

text \<open>
  C8. On a non-empty vocabulary (with its keys distinct, as the keys of a map are)
  \<^verbatim>\<open>createBinaryTree\<close> succeeds: the loop ends with one tree whose leaves are the words of
  the vocabulary, and afterwards every entry has a code as long as its list of parents,
  and the two are the path of its leaf: the indices of the inner nodes from the root down
  to the leaf's parent, with bit 0 for a step to a left child and 1 for a step to a right
  child.
\<close>

theorem createBinaryTree_codes:
  assumes "vocabulary m \<noteq> []" and "distinct (map fst (vocabulary m))"
  shows "\<exists>t m'. huffman_loop 0 (initial_heap (vocabulary m)) = [t]
           \<and> createBinaryTree m = Inr m'
           \<and> map fst (vocabulary m') = map fst (vocabulary m)
           \<and> mset (leaves t) = mset (map fst (vocabulary m))
           \<and> (\<forall>(w, n) \<in> set (vocabulary m').
                 length (code n) = length (parents n)
                 \<and> (w, code n, parents n) \<in> set (paths t))"
proof -
  let ?v = "vocabulary m"
  obtain t where t: "huffman_loop 0 (initial_heap ?v) = [t]"
    and lv: "mset (leaves t) = mset (map fst ?v)"
    using huffman_loop_root[OF initial_heap_nonempty[OF assms(1)], of 0]
    by (auto simp: initial_heap_leaves)
  define m' where "m' = m\<lparr>vocabulary := assignCodes t [] [] ?v\<rparr>"
  have cbt: "createBinaryTree m = Inr m'"
    by (simp add: createBinaryTree_def t m'_def)
  have keys: "map fst (vocabulary m') = map fst ?v"
    by (simp add: m'_def)
  have dt: "distinct (leaves t)"
    using lv assms(2) by (metis mset_eq_imp_distinct_iff)
  have "length (code n) = length (parents n) \<and> (w, code n, parents n) \<in> set (paths t)"
    if wn: "(w, n) \<in> set (vocabulary m')" for w n
  proof -
    have "distinct (map fst (vocabulary m'))" using keys assms(2) by simp
    with wn have look: "map_of (vocabulary m') w = Some n" by simp
    have "w \<in> set (map fst (vocabulary m'))"
      using wn by (metis fst_conv image_eqI set_map)
    then have "w \<in> set (leaves t)"
      using keys lv by (metis mset_eq_setD)
    then obtain cd ps where path: "(w, cd, ps) \<in> set (paths t)"
      unfolding paths_leaves[symmetric] by auto
    have "map_of (vocabulary m') w
        = map_option (\<lambda>n. n\<lparr>code := [] @ cd, parents := [] @ ps\<rparr>) (map_of ?v w)"
      unfolding m'_def using assignCodes_path[OF dt path] by simp
    with look obtain n0 where "n = n0\<lparr>code := cd, parents := ps\<rparr>"
      by (cases "map_of ?v w") auto
    then have "code n = cd" "parents n = ps" by simp_all
    with path paths_length[OF path] show ?thesis by simp
  qed
  with t cbt keys lv show ?thesis by blast
qed

lemma example_vocabulary:
  "map fst (vocabulary example_counts) = [''w1'', ''w2'', ''w3'', ''w4'']"
  by (simp add: example_counts_def huffman_counts_def enumerate_eq_zip upt_conv_Cons)

theorem createBinaryTree_codes_witness:
  "vocabulary example_counts \<noteq> [] \<and> distinct (map fst (vocabulary example_counts))
   \<and> (\<exists>t m'. huffman_loop 0 (initial_heap (vocabulary example_counts)) = [t]
           \<and> createBinaryTree example_counts = Inr m'
           \<and> map fst (vocabulary m') = map fst (vocabulary example_counts)
           \<and> mset (leaves t) = mset (map fst (vocabulary example_counts))
           \<and> (\<forall>(w, n) \<in> set (vocabulary m').
                 length (code n) = length (parents n)
                 \<and> (w, code n, parents n) \<in> set (paths t)))"
proof -
  have d: "distinct (map fst (vocabulary example_counts))"
    unfolding example_vocabulary by simp
  have n: "vocabulary example_counts \<noteq> []"
    using example_vocabulary by auto
  from createBinaryTree_codes[OF n d] n d show ?thesis by blast
qed

lemma example_tree:
  "huffman_loop 0 (initial_heap (vocabulary example_counts))
     = [Parent 2 12 (Leaf ''w1'' 5)
          (Parent 1 7 (Leaf ''w2'' 3) (Parent 0 4 (Leaf ''w4'' 1) (Leaf ''w3'' 3)))]"
  by code_simp

end

